theory Spec2Isabelle
  imports Main
begin

section \<open>Data model (commandline.hpp)\<close>

text \<open>
  The enum \<open>argument_t\<close>, the struct \<open>option\<close> and the two container types of the header.
  The catalog \<open>optlist_t\<close> is a \<open>std::vector\<close>, modelled as a list; a pointer into it
  (\<open>const option_t*\<close>) is modelled as \<open>option_t option\<close>, \<open>None\<close> being the null pointer.
  The result table \<open>keyval_t\<close> is an \<open>unordered_map\<close> from keys to vectors of values.
\<close>

datatype argument_t = no_argument | required_argument | optional_argument | list_argument

record option_t =
  shortopt :: string
  longopt :: string
  name :: string
  argument :: argument_t
  desc :: string

type_synonym optlist_t = "option_t list"

type_synonym keyval_t = "string \<Rightarrow> string list option"

definition kArgumentNameLength :: nat where
  "kArgumentNameLength = 32"

text \<open>
  Everything that ends a call other than by returning: undefined behaviour on the argument
  vector (a \<open>std::string\<close> built from a null \<open>char*\<close>, a read past the terminating null
  entry, an increment of a null cursor), the exception \<open>std::out_of_range\<close> of
  \<open>substr\<close> and \<open>at\<close>, and \<open>exit(status)\<close> together with what was printed to standard
  output and to standard error up to then.
\<close>

datatype failure =
    NullString
  | OutOfBounds
  | NullPointer
  | OutOfRange
  | Exit int string string

section \<open>Strings and the argument vector\<close>

text \<open>
  \<open>input[0]\<close> of a \<open>std::string\<close>: the first character, and the null character when the
  string is empty (C++11).
\<close>

definition front_char :: "string \<Rightarrow> char" where
  "front_char s = (case s of [] \<Rightarrow> CHR 0x00 | c # cs \<Rightarrow> c)"

text \<open>\<open>s.substr(pos)\<close>: throws when \<open>pos\<close> is past the end of \<open>s\<close>.\<close>

definition substr_from :: "string \<Rightarrow> nat \<Rightarrow> failure + string" where
  "substr_from s pos = (if length s < pos then Inl OutOfRange else Inr (drop pos s))"

text \<open>\<open>s.c_str()\<close> printed with \<open>%s\<close>: the characters before the first null character.\<close>

definition c_str :: "string \<Rightarrow> string" where
  "c_str s = takeWhile (\<lambda>c. c \<noteq> CHR 0x00) s"

text \<open>
  \<open>char** argv\<close> is the list of its tokens (the program name first); the entry at index
  \<open>length argv\<close> is the terminating null pointer and every index beyond it is outside the
  array. \<open>argv_at\<close> is the read \<open>*(argv + i)\<close>, \<open>to_string\<close> the conversion of the
  \<open>char*\<close> read there to a \<open>std::string\<close>.
\<close>

definition argv_at :: "string list \<Rightarrow> nat \<Rightarrow> failure + string option" where
  "argv_at argv i =
     (if i < length argv then Inr (Some (argv ! i))
      else if i = length argv then Inr None
      else Inl OutOfBounds)"

definition to_string :: "string option \<Rightarrow> failure + string" where
  "to_string p = (case p of None \<Rightarrow> Inl NullString | Some s \<Rightarrow> Inr s)"

section \<open>Splitting a long option: extract\<close>

text \<open>
  The \<open>for\<close> loop of \<open>extract\<close>: the index of the first \<open>=\<close> at or after \<open>i\<close>, and the length
  when there is none. The source counts in \<open>int\<close>; the model counts in \<open>nat\<close>, which agrees
  for every string shorter than \<open>2^31\<close> characters, as a command-line token is.
\<close>

function extract_scan :: "string \<Rightarrow> nat \<Rightarrow> nat" where
  "extract_scan option i =
     (if i < length option
      then (if option ! i = CHR ''='' then i else extract_scan option (Suc i))
      else i)"
  by pat_completeness auto
termination
  by (relation "measure (\<lambda>(option, i). length option - i)") auto

text \<open>
  \<open>extract\<close> (here \<open>extract_field\<close>, the plain name being a command of Isabelle): field 1
  is the text before the first \<open>=\<close>, field 2 the text after it. The two
  \<open>substr\<close> calls start at \<open>0\<close> and at \<open>i + 1\<close> with \<open>i\<close> the index of an \<open>=\<close>, so neither
  starts past the end (lemma \<open>extract_scan_less\<close>) and neither throws; they are written
  with \<open>take\<close> and \<open>drop\<close>.
\<close>

definition extract_field :: "string \<Rightarrow> int \<Rightarrow> string" where
  "extract_field option field =
     (if field \<noteq> 1 \<and> field \<noteq> 2 then []
      else if CHR ''='' \<notin> set option then (if field = 1 then option else [])
      else (let i = extract_scan option 0 in
            if field = 1 then take i option
            else take (length option - Suc i) (drop (Suc i) option)))"

definition extract_option :: "string \<Rightarrow> string" where
  "extract_option option = extract_field option 1"

definition extract_value :: "string \<Rightarrow> string" where
  "extract_value option = extract_field option 2"

section \<open>Catalog lookup\<close>

text \<open>
  The overloads that take a descriptor pointer carry the suffix \<open>_data\<close>; the ones that look
  the descriptor up themselves keep the plain name.
\<close>

definition is_short_option_data :: "option_t option \<Rightarrow> string \<Rightarrow> bool" where
  "is_short_option_data data option =
     (case data of None \<Rightarrow> False | Some d \<Rightarrow> option = shortopt d)"

definition is_long_option_data :: "option_t option \<Rightarrow> string \<Rightarrow> bool" where
  "is_long_option_data data option =
     (case data of None \<Rightarrow> False
      | Some d \<Rightarrow> option = longopt d \<or> extract_option option = longopt d)"

definition is_option_data :: "option_t option \<Rightarrow> string \<Rightarrow> bool" where
  "is_option_data data option =
     (is_short_option_data data option \<or> is_long_option_data data option)"

fun find_option :: "optlist_t \<Rightarrow> string \<Rightarrow> option_t option" where
  "find_option [] option = None"
| "find_option (d # ds) option =
     (if is_option_data (Some d) option then Some d else find_option ds option)"

definition is_short_option :: "optlist_t \<Rightarrow> string \<Rightarrow> bool" where
  "is_short_option opts option = is_short_option_data (find_option opts option) option"

definition is_long_option :: "optlist_t \<Rightarrow> string \<Rightarrow> bool" where
  "is_long_option opts option = is_long_option_data (find_option opts option) option"

definition is_option :: "optlist_t \<Rightarrow> string \<Rightarrow> bool" where
  "is_option opts option = (is_short_option opts option \<or> is_long_option opts option)"

definition to_short_option :: "optlist_t \<Rightarrow> string \<Rightarrow> string" where
  "to_short_option opts option =
     (case find_option opts option of None \<Rightarrow> [] | Some d \<Rightarrow> shortopt d)"

definition to_long_option :: "optlist_t \<Rightarrow> string \<Rightarrow> string" where
  "to_long_option opts option =
     (case find_option opts option of None \<Rightarrow> [] | Some d \<Rightarrow> longopt d)"

section \<open>Canonical keys and the result table\<close>

text \<open>
  \<open>to_key\<close>: an input without a leading dash is looked up with \<open>--\<close> in front and, when that
  finds nothing, with one dash; the key is the long form of the descriptor found without its
  first two characters, or its short form without the first one. The empty string is the
  answer when nothing is found.
\<close>

definition to_key :: "optlist_t \<Rightarrow> string \<Rightarrow> failure + string" where
  "to_key opts input0 =
     (let (input, data) =
            (if front_char input0 \<noteq> CHR ''-''
             then (let input1 = ''--'' @ input0 in
                   case find_option opts input1 of
                     None \<Rightarrow> (drop 1 input1, None)
                   | Some d \<Rightarrow> (input1, Some d))
             else (input0, None))
      in case (case data of None \<Rightarrow> find_option opts input | Some d \<Rightarrow> Some d) of
           None \<Rightarrow> Inr []
         | Some d \<Rightarrow>
             if longopt d \<noteq> [] then substr_from (longopt d) 2
             else if shortopt d \<noteq> [] then substr_from (shortopt d) 1
             else Inr [])"

text \<open>
  \<open>set\<close> returns its status together with the table; \<open>m_table[key]\<close> creates an empty
  vector for a key that is not there yet.
\<close>

definition set_value :: "optlist_t \<Rightarrow> keyval_t \<Rightarrow> string \<Rightarrow> string \<Rightarrow> failure + (int \<times> keyval_t)" where
  "set_value opts m_table option v =
     (case to_key opts option of
        Inl e \<Rightarrow> Inl e
      | Inr key \<Rightarrow>
          if key = [] then Inr (- 1, m_table)
          else Inr (0, m_table(key \<mapsto> (case m_table key of None \<Rightarrow> [] | Some vs \<Rightarrow> vs) @ [v])))"

definition has :: "optlist_t \<Rightarrow> keyval_t \<Rightarrow> string \<Rightarrow> failure + bool" where
  "has opts m_table option =
     (case to_key opts option of
        Inl e \<Rightarrow> Inl e
      | Inr key \<Rightarrow> Inr (m_table key \<noteq> None))"

text \<open>\<open>get\<close>: \<open>at(0)\<close> throws on an empty vector.\<close>

definition get :: "optlist_t \<Rightarrow> keyval_t \<Rightarrow> string \<Rightarrow> failure + string" where
  "get opts m_table option =
     (case has opts m_table option of
        Inl e \<Rightarrow> Inl e
      | Inr False \<Rightarrow> Inr []
      | Inr True \<Rightarrow>
          (case to_key opts option of
             Inl e \<Rightarrow> Inl e
           | Inr key \<Rightarrow>
               (case m_table key of
                  None \<Rightarrow> Inl OutOfRange
                | Some [] \<Rightarrow> Inl OutOfRange
                | Some (v # vs) \<Rightarrow> Inr v)))"

section \<open>Usage text and diagnostics\<close>

text \<open>
  The macro \<open>PROGRAM\<close> is defined by the embedding program; it is the parameter \<open>prog\<close>.
  \<open>snprintf\<close> into \<open>arg\<close> keeps at most \<open>kArgumentNameLength - 1\<close> characters.
\<close>

definition usage_entry :: "option_t \<Rightarrow> string" where
  "usage_entry data =
     (let arg = (if name data = [] then []
                 else take (kArgumentNameLength - 1) (''=<'' @ c_str (name data) @ ''>''))
      in [CHR 0x0A] @ ''    '' @ c_str (shortopt data) @ '', '' @ c_str (longopt data) @ arg
           @ [CHR 0x0A] @ ''        '' @ c_str (desc data) @ [CHR 0x0A])"

definition usage :: "optlist_t \<Rightarrow> string \<Rightarrow> string" where
  "usage opts prog =
     ''Usage: '' @ prog @ '' [option]...'' @ [CHR 0x0A, CHR 0x0A] @ ''Options:''
       @ concat (map usage_entry opts)"

definition invalid_option_msg :: "string \<Rightarrow> string \<Rightarrow> string" where
  "invalid_option_msg prog option =
     prog @ '': Invalid option '' @ [CHR 0x27] @ option @ [CHR 0x27, CHR 0x0A]"

definition no_list_argument_msg :: "string \<Rightarrow> string \<Rightarrow> string" where
  "no_list_argument_msg prog option =
     prog @ '': No argument after option '' @ [CHR 0x27] @ option @ [CHR 0x27]
       @ '' with list_argument type.'' @ [CHR 0x0A]"

definition undetermined_msg :: "string \<Rightarrow> string \<Rightarrow> string" where
  "undetermined_msg prog option =
     prog @ '': Unable to determine if '' @ [CHR 0x27] @ option @ [CHR 0x27]
       @ '' is a long or short option.'' @ [CHR 0x0A]"

section \<open>The parser\<close>

definition parse_option :: "optlist_t \<Rightarrow> string \<Rightarrow> string \<Rightarrow> failure + (option_t option \<times> string)" where
  "parse_option opts prog option =
     (case find_option opts option of
        None \<Rightarrow> Inl (Exit 1 [] (invalid_option_msg prog option))
      | Some d \<Rightarrow> Inr (Some d, option))"

definition parse_help_option :: "optlist_t \<Rightarrow> string \<Rightarrow> option_t \<Rightarrow> failure + unit" where
  "parse_help_option opts prog data =
     (if longopt data = ''--help'' \<or> shortopt data = ''-?''
      then Inl (Exit 0 (usage opts prog) [])
      else Inr ())"

text \<open>The cursor \<open>argp\<close> is an index into the argument vector.\<close>

definition parse_short_argument :: "optlist_t \<Rightarrow> string list \<Rightarrow> nat \<Rightarrow> failure + (nat \<times> string)" where
  "parse_short_argument opts argv argp =
     (case argv_at argv (Suc argp) of
        Inl e \<Rightarrow> Inl e
      | Inr None \<Rightarrow> Inr (argp, [])
      | Inr (Some nxt) \<Rightarrow>
          if \<not> is_option opts nxt then Inr (Suc argp, nxt) else Inr (argp, []))"

definition parse_long_argument :: "string list \<Rightarrow> nat \<Rightarrow> failure + (nat \<times> string \<times> string)" where
  "parse_long_argument argv argp =
     (case argv_at argv argp of
        Inl e \<Rightarrow> Inl e
      | Inr p \<Rightarrow>
          (case to_string p of
             Inl e \<Rightarrow> Inl e
           | Inr s \<Rightarrow> Inr (argp, extract_option s, extract_value s)))"

text \<open>
  \<open>parse_list_argument\<close> returns the list flag it leaves behind, with the table; the status
  of \<open>set\<close> is dropped, as in the source.
\<close>

definition parse_list_argument ::
  "optlist_t \<Rightarrow> keyval_t \<Rightarrow> string list \<Rightarrow> nat \<Rightarrow> string \<Rightarrow> bool \<Rightarrow> failure + (bool \<times> keyval_t)" where
  "parse_list_argument opts m_table argv argp option listflag =
     (if listflag
      then (case argv_at argv argp of
              Inl e \<Rightarrow> Inl e
            | Inr p \<Rightarrow>
                (case to_string p of
                   Inl e \<Rightarrow> Inl e
                 | Inr s \<Rightarrow>
                     if is_option opts s then Inr (False, m_table)
                     else (case set_value opts m_table option s of
                             Inl e \<Rightarrow> Inl e
                           | Inr (rc, m_table') \<Rightarrow> Inr (True, m_table'))))
      else Inr (False, m_table))"

text \<open>
  \<open>parse_argument\<close> returns the cursor (\<open>None\<close> for the null pointer), the list flag and the
  table. The cases \<open>no_argument\<close> and \<open>list_argument\<close> return from inside the \<open>switch\<close>;
  only the remaining case reaches the call of \<open>set\<close> after it.
\<close>

definition parse_argument ::
  "optlist_t \<Rightarrow> string \<Rightarrow> keyval_t \<Rightarrow> string list \<Rightarrow> option_t option \<Rightarrow> nat \<Rightarrow> bool
     \<Rightarrow> failure + (nat option \<times> bool \<times> keyval_t)" where
  "parse_argument opts prog m_table argv data argp listflag =
     (case argv_at argv argp of
        Inl e \<Rightarrow> Inl e
      | Inr p \<Rightarrow>
     (case to_string p of
        Inl e \<Rightarrow> Inl e
      | Inr key \<Rightarrow>
     (case data of
        None \<Rightarrow> Inr (None, listflag, m_table)
      | Some d \<Rightarrow>
     (case argument d of
        no_argument \<Rightarrow>
          (case parse_help_option opts prog d of
             Inl e \<Rightarrow> Inl e
           | Inr u \<Rightarrow> Inr (Some argp, listflag, m_table))
      | list_argument \<Rightarrow>
          (case argv_at argv (Suc argp) of
             Inl e \<Rightarrow> Inl e
           | Inr None \<Rightarrow> Inl (Exit 1 [] (no_list_argument_msg prog key))
           | Inr (Some nxt) \<Rightarrow> Inr (Some argp, True, m_table))
      | _ \<Rightarrow>
          (case (if is_long_option_data (Some d) key
                 then parse_long_argument argv argp
                 else if is_short_option_data (Some d) key
                 then (case parse_short_argument opts argv argp of
                         Inl e \<Rightarrow> Inl e
                       | Inr (argp', v) \<Rightarrow> Inr (argp', key, v))
                 else Inl (Exit 1 [] (undetermined_msg prog key))) of
             Inl e \<Rightarrow> Inl e
           | Inr (argp', key', v) \<Rightarrow>
               (case set_value opts m_table key' v of
                  Inl e \<Rightarrow> Inl e
                | Inr (rc, m_table') \<Rightarrow> Inr (Some argp', listflag, m_table')))))))"

text \<open>
  The \<open>for\<close> loop of \<open>parse\<close>, from the cursor \<open>argp\<close> on. The loop ends at the
  terminating null entry. \<open>data\<close> is written by \<open>parse_option\<close> before every use, so it is
  no part of the loop's state. A null cursor handed back by \<open>parse_argument\<close> would be
  incremented by the loop header.
\<close>

function parse_loop ::
  "optlist_t \<Rightarrow> string \<Rightarrow> string list \<Rightarrow> nat \<Rightarrow> string \<Rightarrow> bool \<Rightarrow> keyval_t \<Rightarrow> failure + keyval_t" where
  "parse_loop opts prog argv argp option listflag m_table =
     (case argv_at argv argp of
        Inl e \<Rightarrow> Inl e
      | Inr None \<Rightarrow> Inr m_table
      | Inr (Some tok) \<Rightarrow>
          (case parse_list_argument opts m_table argv argp option listflag of
             Inl e \<Rightarrow> Inl e
           | Inr (True, m_table1) \<Rightarrow> parse_loop opts prog argv (Suc argp) option True m_table1
           | Inr (False, m_table1) \<Rightarrow>
               (case parse_option opts prog tok of
                  Inl e \<Rightarrow> Inl e
                | Inr (data, option') \<Rightarrow>
                    (case parse_argument opts prog m_table1 argv data argp False of
                       Inl e \<Rightarrow> Inl e
                     | Inr (None, listflag', m_table2) \<Rightarrow> Inl NullPointer
                     | Inr (Some argp', listflag', m_table2) \<Rightarrow>
                         parse_loop opts prog argv (Suc argp') option' listflag' m_table2))))"
  by pat_completeness auto
termination
proof (relation "measure (\<lambda>(opts, prog, argv, argp, option, listflag, m_table). Suc (length argv) - argp)",
    goal_cases)
  case 1
  show ?case by simp
next
  case (2 opts prog argv argp option listflag m_table b x2 ba x y)
  then show ?case
    by (auto simp: argv_at_def split: if_splits)
next
  case (3 opts prog argv argp option listflag m_table b x2 ba x y bb xa ya bc xb yb x2a xc yc)
  from 3(1,2) have lt: "argp < length argv"
    by (auto simp: argv_at_def split: if_splits)
  from 3(8-10) have "parse_argument opts prog y argv xa argp False = Inr (Some x2a, yb)"
    by simp
  then have "x2a = argp \<or> x2a = Suc argp"
    by (auto simp: parse_argument_def parse_long_argument_def parse_short_argument_def
        split: sum.splits option.splits argument_t.splits if_splits prod.splits)
  with lt show ?case
    by auto
qed

text \<open>
  \<open>parse\<close>: the cursor starts at index 1, and \<open>option\<close> is built from the entry there before
  the loop tests it.
\<close>

definition parse :: "optlist_t \<Rightarrow> string \<Rightarrow> string list \<Rightarrow> keyval_t \<Rightarrow> failure + keyval_t" where
  "parse opts prog argv m_table =
     (case argv_at argv 1 of
        Inl e \<Rightarrow> Inl e
      | Inr p \<Rightarrow>
          (case to_string p of
             Inl e \<Rightarrow> Inl e
           | Inr option \<Rightarrow> parse_loop opts prog argv 1 option False m_table))"

section \<open>The specification's vocabulary\<close>

text \<open>
  The definitions of this section follow the words of the specification, not the code; the
  theorems below compare the code with them.

  Matching (catalog lookup): a token matches a descriptor if it equals the descriptor's short
  form, equals its long form exactly, or equals the long form once any \<open>=value\<close> suffix is
  stripped.
\<close>

definition spec_strip_value :: "string \<Rightarrow> string" where
  "spec_strip_value t = takeWhile (\<lambda>c. c \<noteq> CHR ''='') t"

definition spec_matches :: "option_t \<Rightarrow> string \<Rightarrow> bool" where
  "spec_matches d t = (t = shortopt d \<or> t = longopt d \<or> spec_strip_value t = longopt d)"

text \<open>
  The canonical key: the long form without its two leading dashes, and the short form without
  its one leading dash when no long form exists.
\<close>

definition spec_canonical_key :: "option_t \<Rightarrow> string" where
  "spec_canonical_key d = (if longopt d \<noteq> [] then drop 2 (longopt d) else drop 1 (shortopt d))"

text \<open>
  Resolving a spelling for canonicalization: a spelling with a leading dash is looked up as it
  is; one without is tried first as a long option (two dashes in front), then as a short
  option (one dash), before giving up. The lookup takes the first descriptor of the catalog
  that matches.
\<close>

definition spec_resolve :: "optlist_t \<Rightarrow> string \<Rightarrow> option_t option" where
  "spec_resolve opts K =
     (if K \<noteq> [] \<and> hd K = CHR ''-'' then List.find (\<lambda>d. spec_matches d K) opts
      else (case List.find (\<lambda>d. spec_matches d (''--'' @ K)) opts of
              Some d \<Rightarrow> Some d
            | None \<Rightarrow> List.find (\<lambda>d. spec_matches d (''-'' @ K)) opts))"

text \<open>
  A well-formed catalog (the invariant of the data model): a short form is empty or a single
  dash followed by a token, a long form is empty or a double dash followed by a token that
  holds no \<open>=\<close> (the character that separates a long option from its value), every
  descriptor has one of the two, and no two descriptors share a short or a long spelling.
\<close>

definition wf_short :: "string \<Rightarrow> bool" where
  "wf_short s = (s = [] \<or> (1 < length s \<and> s ! 0 = CHR ''-'' \<and> s ! 1 \<noteq> CHR ''-''))"

definition wf_long :: "string \<Rightarrow> bool" where
  "wf_long s = (s = [] \<or> (2 < length s \<and> take 2 s = ''--'' \<and> CHR ''='' \<notin> set s))"

definition wf_catalog :: "optlist_t \<Rightarrow> bool" where
  "wf_catalog opts =
     ((\<forall>d\<in>set opts. wf_short (shortopt d) \<and> wf_long (longopt d)
          \<and> (shortopt d \<noteq> [] \<or> longopt d \<noteq> []))
      \<and> distinct (filter (\<lambda>s. s \<noteq> []) (map shortopt opts))
      \<and> distinct (filter (\<lambda>s. s \<noteq> []) (map longopt opts)))"

text \<open>
  The value sequence of a key after one more value: \<open>m_table[key].push_back(v)\<close> seen from
  the caller.
\<close>

definition append_value :: "keyval_t \<Rightarrow> string \<Rightarrow> string \<Rightarrow> keyval_t" where
  "append_value m_table key v =
     m_table(key \<mapsto> (case m_table key of None \<Rightarrow> [] | Some vs \<Rightarrow> vs) @ [v])"

text \<open>
  The key that \<open>to_key\<close> reads off the descriptor it found, as the last part of its body
  does: this can throw, when a long form is shorter than two characters.
\<close>

definition key_result :: "option_t option \<Rightarrow> failure + string" where
  "key_result data =
     (case data of None \<Rightarrow> Inr []
      | Some d \<Rightarrow>
          if longopt d \<noteq> [] then substr_from (longopt d) 2
          else if shortopt d \<noteq> [] then substr_from (shortopt d) 1
          else Inr [])"

text \<open>The failures that are undefined behaviour on the argument vector.\<close>

definition memory_fault :: "failure \<Rightarrow> bool" where
  "memory_fault e = (e = NullString \<or> e = OutOfBounds \<or> e = NullPointer)"

section \<open>Example catalogs\<close>

definition verbose_option :: option_t where
  "verbose_option =
     \<lparr>shortopt = ''-v'', longopt = ''--verbose'', name = [], argument = no_argument,
       desc = ''Print more.''\<rparr>"

definition output_option :: option_t where
  "output_option =
     \<lparr>shortopt = ''-o'', longopt = ''--output'', name = ''file'',
       argument = required_argument, desc = ''Write to a file.''\<rparr>"

definition tags_option :: option_t where
  "tags_option =
     \<lparr>shortopt = [], longopt = ''--tags'', name = ''tag'', argument = list_argument,
       desc = ''Tags.''\<rparr>"

definition help_option :: option_t where
  "help_option =
     \<lparr>shortopt = ''-?'', longopt = ''--help'', name = [], argument = no_argument,
       desc = ''Print this text.''\<rparr>"

definition quiet_option :: option_t where
  "quiet_option =
     \<lparr>shortopt = ''-q'', longopt = [], name = ''level'', argument = optional_argument,
       desc = ''Print less.''\<rparr>"

definition example_catalog :: optlist_t where
  "example_catalog = [verbose_option, output_option, tags_option, help_option, quiet_option]"

text \<open>
  Two small catalogs that meet the invariant as well: one whose only option has no short form,
  and one whose long form goes on with a dash after the two leading ones.
\<close>

definition file_option :: option_t where
  "file_option =
     \<lparr>shortopt = [], longopt = ''--file'', name = ''path'', argument = required_argument,
       desc = ''Read a file.''\<rparr>"

definition long_only_catalog :: optlist_t where
  "long_only_catalog = [file_option]"

definition dash_option :: option_t where
  "dash_option =
     \<lparr>shortopt = [], longopt = ''---x'', name = ''n'', argument = required_argument,
       desc = ''Set x.''\<rparr>"

definition dash_catalog :: optlist_t where
  "dash_catalog = [dash_option]"

declare parse_loop.simps [simp del]

declare extract_scan.simps [simp del]

section \<open>What extract computes\<close>

lemma extract_scan_takeWhile:
  "i \<le> length s \<Longrightarrow>
   extract_scan s i = i + length (takeWhile (\<lambda>c. c \<noteq> CHR ''='') (drop i s))"
proof (induction s i rule: extract_scan.induct)
  case (1 option i)
  show ?case
  proof (cases "i < length option")
    case True
    then have d: "drop i option = option ! i # drop (Suc i) option"
      by (simp add: Cons_nth_drop_Suc)
    show ?thesis
    proof (cases "option ! i = CHR ''=''")
      case True
      with \<open>i < length option\<close> d show ?thesis
        by (subst extract_scan.simps) simp
    next
      case False
      with \<open>i < length option\<close> d "1.IH" show ?thesis
        by (subst extract_scan.simps) simp
    qed
  next
    case False
    with "1.prems" show ?thesis
      by (subst extract_scan.simps) simp
  qed
qed

lemma length_takeWhile_less_if:
  "\<exists>x\<in>set s. \<not> P x \<Longrightarrow> length (takeWhile P s) < length s"
  by (induction s) auto

lemma take_length_takeWhile:
  "take (length (takeWhile P s)) s = takeWhile P s"
  by (induction s) auto

lemma drop_length_takeWhile:
  "drop (length (takeWhile P s)) s = dropWhile P s"
  by (induction s) auto

lemma drop_Suc_length_takeWhile:
  "drop (Suc (length (takeWhile P s))) s = drop 1 (dropWhile P s)"
  by (induction s) auto

lemma extract_scan_less:
  "CHR ''='' \<in> set s \<Longrightarrow> extract_scan s 0 < length s"
  by (auto simp: extract_scan_takeWhile intro: length_takeWhile_less_if)

lemma extract_option_takeWhile:
  "extract_option s = takeWhile (\<lambda>c. c \<noteq> CHR ''='') s"
proof (cases "CHR ''='' \<in> set s")
  case True
  then show ?thesis
    by (simp add: extract_option_def extract_field_def extract_scan_takeWhile Let_def
        take_length_takeWhile)
next
  case False
  then have "extract_option s = s"
    by (simp add: extract_option_def extract_field_def)
  also from False have "s = takeWhile (\<lambda>c. c \<noteq> CHR ''='') s"
    by (induction s) auto
  finally show ?thesis .
qed

lemma extract_value_dropWhile:
  "extract_value s = drop 1 (dropWhile (\<lambda>c. c \<noteq> CHR ''='') s)"
proof (cases "CHR ''='' \<in> set s")
  case True
  then show ?thesis
    by (simp add: extract_value_def extract_field_def extract_scan_takeWhile Let_def
        drop_Suc_length_takeWhile del: drop_Suc_Cons)
next
  case False
  then have dw: "dropWhile (\<lambda>c. c \<noteq> CHR ''='') s = []"
    by auto
  from False show ?thesis
    unfolding dw by (simp add: extract_value_def extract_field_def)
qed

lemma extract_option_append:
  "CHR ''='' \<notin> set a \<Longrightarrow> extract_option (a @ CHR ''='' # v) = a"
  by (simp add: extract_option_takeWhile takeWhile_append)

lemma extract_value_append:
  "CHR ''='' \<notin> set a \<Longrightarrow> extract_value (a @ CHR ''='' # v) = v"
  by (simp add: extract_value_dropWhile dropWhile_append)

lemma extract_option_plain:
  "CHR ''='' \<notin> set s \<Longrightarrow> extract_option s = s"
  by (simp add: extract_option_def extract_field_def)

lemma extract_value_plain:
  "CHR ''='' \<notin> set s \<Longrightarrow> extract_value s = []"
  by (simp add: extract_value_def extract_field_def)

lemma is_option_data_Some:
  "is_option_data (Some d) t =
     (t = shortopt d \<or> t = longopt d \<or> extract_option t = longopt d)"
  by (simp add: is_option_data_def is_short_option_data_def is_long_option_data_def)

lemma find_option_None_iff:
  "find_option opts t = None \<longleftrightarrow> (\<forall>d\<in>set opts. \<not> is_option_data (Some d) t)"
  by (induction opts) auto

lemma find_option_SomeD:
  "find_option opts t = Some d \<Longrightarrow> d \<in> set opts \<and> is_option_data (Some d) t"
  by (induction opts) (auto split: if_splits)

lemma find_option_Some_iff:
  "find_option opts t = Some d \<longleftrightarrow>
     (\<exists>pre post. opts = pre @ d # post \<and> is_option_data (Some d) t
        \<and> (\<forall>x\<in>set pre. \<not> is_option_data (Some x) t))"
proof (induction opts)
  case Nil
  then show ?case by simp
next
  case (Cons a opts)
  show ?case
  proof (cases "is_option_data (Some a) t")
    case True
    have "(\<exists>pre post. a # opts = pre @ d # post \<and> is_option_data (Some d) t
        \<and> (\<forall>x\<in>set pre. \<not> is_option_data (Some x) t)) \<longleftrightarrow> a = d"
    proof
      assume "\<exists>pre post. a # opts = pre @ d # post \<and> is_option_data (Some d) t
        \<and> (\<forall>x\<in>set pre. \<not> is_option_data (Some x) t)"
      then obtain pre post where p: "a # opts = pre @ d # post"
        "\<forall>x\<in>set pre. \<not> is_option_data (Some x) t" by blast
      with True show "a = d" by (cases pre) auto
    next
      assume "a = d"
      with True have "a # opts = [] @ d # opts \<and> is_option_data (Some d) t
        \<and> (\<forall>x\<in>set []. \<not> is_option_data (Some x) t)" by simp
      then show "\<exists>pre post. a # opts = pre @ d # post \<and> is_option_data (Some d) t
        \<and> (\<forall>x\<in>set pre. \<not> is_option_data (Some x) t)" by blast
    qed
    with True show ?thesis by auto
  next
    case False
    have "(\<exists>pre post. a # opts = pre @ d # post \<and> is_option_data (Some d) t
        \<and> (\<forall>x\<in>set pre. \<not> is_option_data (Some x) t)) \<longleftrightarrow>
          (\<exists>pre post. opts = pre @ d # post \<and> is_option_data (Some d) t
        \<and> (\<forall>x\<in>set pre. \<not> is_option_data (Some x) t))" (is "?L \<longleftrightarrow> ?R")
    proof
      assume ?L
      then obtain pre post where p: "a # opts = pre @ d # post" "is_option_data (Some d) t"
        "\<forall>x\<in>set pre. \<not> is_option_data (Some x) t" by blast
      with False obtain pre' where "pre = a # pre'" by (cases pre) auto
      with p have "opts = pre' @ d # post \<and> is_option_data (Some d) t
        \<and> (\<forall>x\<in>set pre'. \<not> is_option_data (Some x) t)" by simp
      then show ?R by blast
    next
      assume ?R
      then obtain pre post where p: "opts = pre @ d # post" "is_option_data (Some d) t"
        "\<forall>x\<in>set pre. \<not> is_option_data (Some x) t" by blast
      with False have "a # opts = (a # pre) @ d # post \<and> is_option_data (Some d) t
        \<and> (\<forall>x\<in>set (a # pre). \<not> is_option_data (Some x) t)" by simp
      then show ?L by blast
    qed
    with False Cons.IH show ?thesis by simp
  qed
qed

lemma is_option_iff_find:
  "is_option opts t \<longleftrightarrow> find_option opts t \<noteq> None"
proof (cases "find_option opts t")
  case None
  then show ?thesis
    by (simp add: is_option_def is_short_option_def is_long_option_def
        is_short_option_data_def is_long_option_data_def)
next
  case (Some d)
  with find_option_SomeD [OF Some] show ?thesis
    by (simp add: is_option_def is_short_option_def is_long_option_def is_option_data_def)
qed

section \<open>Canonical keys\<close>

lemma find_option_spec:
  "find_option opts t = List.find (\<lambda>d. spec_matches d t) opts"
  by (induction opts)
     (simp_all add: is_option_data_Some spec_matches_def spec_strip_value_def
        extract_option_takeWhile)

lemma front_char_dash:
  "front_char K = CHR ''-'' \<longleftrightarrow> K \<noteq> [] \<and> hd K = CHR ''-''"
  by (cases K) (simp_all add: front_char_def)

lemma to_key_resolve:
  "to_key opts K = key_result (spec_resolve opts K)"
  by (auto simp: to_key_def spec_resolve_def key_result_def front_char_dash Let_def
        find_option_spec [symmetric]
      split: option.splits)

lemma key_result_canonical:
  "spec_canonical_key d \<noteq> [] \<Longrightarrow> key_result (Some d) = Inr (spec_canonical_key d)"
  by (auto simp: key_result_def spec_canonical_key_def substr_from_def split: if_splits)


lemma wf_catalog_memD:
  "wf_catalog opts \<Longrightarrow> d \<in> set opts \<Longrightarrow>
     wf_short (shortopt d) \<and> wf_long (longopt d) \<and> (shortopt d \<noteq> [] \<or> longopt d \<noteq> [])"
  by (simp add: wf_catalog_def)

lemma wf_canonical_key_nonempty:
  "wf_catalog opts \<Longrightarrow> d \<in> set opts \<Longrightarrow> spec_canonical_key d \<noteq> []"
  by (drule (1) wf_catalog_memD) (auto simp: spec_canonical_key_def wf_short_def wf_long_def)

lemma spec_resolve_dash:
  "front_char t = CHR ''-'' \<Longrightarrow> spec_resolve opts t = find_option opts t"
  by (simp add: spec_resolve_def front_char_dash find_option_spec)

lemma wf_to_key:
  assumes "wf_catalog opts" and "find_option opts t = Some d" and "front_char t = CHR ''-''"
  shows "to_key opts t = Inr (spec_canonical_key d)"
proof -
  from assms(2) have "d \<in> set opts" by (simp add: find_option_SomeD)
  with assms(1) have "spec_canonical_key d \<noteq> []" by (rule wf_canonical_key_nonempty)
  with assms(2,3) show ?thesis
    by (simp add: to_key_resolve spec_resolve_dash key_result_canonical)
qed

lemma wf_long_no_short:
  assumes "wf_long l" and "l \<noteq> []" and "wf_short s"
  shows "l \<noteq> s"
proof
  assume "l = s"
  with assms have "take 2 s = ''--''" and "s ! 1 \<noteq> CHR ''-''" and "1 < length s"
    by (auto simp: wf_long_def wf_short_def)
  then show False
    by (cases s; cases "tl s") auto
qed

lemma wf_find_long:
  assumes wf: "wf_catalog opts" and f: "find_option opts t = Some d"
    and l: "extract_option t = longopt d" and ne: "longopt d \<noteq> []"
  shows "find_option opts (longopt d) = Some d"
proof -
  from f obtain pre post where split: "opts = pre @ d # post"
    and first: "\<forall>x\<in>set pre. \<not> is_option_data (Some x) t"
    by (auto simp: find_option_Some_iff)
  from wf split have wd: "wf_long (longopt d)"
    by (simp add: wf_catalog_memD)
  with ne have noeq: "CHR ''='' \<notin> set (longopt d)"
    by (simp add: wf_long_def)
  have "\<not> is_option_data (Some x) (longopt d)" if x: "x \<in> set pre" for x
  proof
    assume m: "is_option_data (Some x) (longopt d)"
    from wf split x have wx: "wf_short (shortopt x)"
      by (simp add: wf_catalog_memD)
    from m noeq have "longopt d = shortopt x \<or> longopt d = longopt x"
      by (auto simp: is_option_data_Some extract_option_plain)
    with wf_long_no_short [OF wd ne wx] have "longopt d = longopt x" by simp
    with l have "is_option_data (Some x) t"
      by (simp add: is_option_data_Some)
    with first x show False by simp
  qed
  with split have "opts = pre @ d # post \<and> is_option_data (Some d) (longopt d)
        \<and> (\<forall>x\<in>set pre. \<not> is_option_data (Some x) (longopt d))"
    by (simp add: is_option_data_Some)
  then show ?thesis
    unfolding find_option_Some_iff by blast
qed

section \<open>One step of the scan\<close>

lemma argv_at_in: "i < length argv \<Longrightarrow> argv_at argv i = Inr (Some (argv ! i))"
  by (simp add: argv_at_def)

lemma argv_at_end: "argv_at argv (length argv) = Inr None"
  by (simp add: argv_at_def)

lemma parse_list_argument_option:
  "i < length argv \<Longrightarrow> find_option opts (argv ! i) = Some d \<Longrightarrow>
   parse_list_argument opts m_table argv i option listflag = Inr (False, m_table)"
  by (simp add: parse_list_argument_def argv_at_in to_string_def is_option_iff_find)

lemma parse_loop_option:
  assumes "i < length argv" and "find_option opts (argv ! i) = Some d"
  shows "parse_loop opts prog argv i option listflag m_table =
     (case parse_argument opts prog m_table argv (Some d) i False of
        Inl e \<Rightarrow> Inl e
      | Inr (None, listflag', m_table') \<Rightarrow> Inl NullPointer
      | Inr (Some i', listflag', m_table') \<Rightarrow>
          parse_loop opts prog argv (Suc i') (argv ! i) listflag' m_table')"
  using assms
  by (subst parse_loop.simps)
     (simp add: argv_at_in parse_list_argument_option parse_option_def)

lemma parse_loop_invalid:
  assumes "i < length argv" and "find_option opts (argv ! i) = None"
  shows "parse_loop opts prog argv i option False m_table =
     Inl (Exit 1 [] (invalid_option_msg prog (argv ! i)))"
  using assms
  by (subst parse_loop.simps)
     (simp add: argv_at_in parse_list_argument_def parse_option_def)

lemma parse_loop_collect:
  assumes "i < length argv" and "find_option opts (argv ! i) = None"
  shows "parse_loop opts prog argv i option True m_table =
     (case set_value opts m_table option (argv ! i) of
        Inl e \<Rightarrow> Inl e
      | Inr (rc, m_table') \<Rightarrow> parse_loop opts prog argv (Suc i) option True m_table')"
  using assms
  by (subst parse_loop.simps)
     (simp add: argv_at_in parse_list_argument_def to_string_def is_option_iff_find
        split: sum.splits prod.splits)

lemma parse_loop_end:
  "parse_loop opts prog argv (length argv) option listflag m_table = Inr m_table"
  by (subst parse_loop.simps) (simp add: argv_at_end)

section \<open>Reads of the argument vector\<close>

lemma to_key_failure: "to_key opts K = Inl e \<Longrightarrow> e = OutOfRange"
  by (auto simp: to_key_resolve key_result_def substr_from_def split: option.splits if_splits)

lemma set_value_failure: "set_value opts t K V = Inl e \<Longrightarrow> e = OutOfRange"
  by (auto simp: set_value_def split: sum.splits if_splits dest: to_key_failure)

lemma parse_argument_failure:
  assumes "i < length argv" and "parse_argument opts prog t argv (Some d) i lf = Inl e"
  shows "\<not> memory_fault e"
  using assms
  by (auto simp: parse_argument_def parse_help_option_def parse_long_argument_def
        parse_short_argument_def argv_at_def to_string_def memory_fault_def
      split: sum.splits option.splits argument_t.splits if_splits prod.splits
      dest: set_value_failure)

lemma parse_argument_cursor:
  assumes "i < length argv" and "parse_argument opts prog t argv (Some d) i lf = Inr (r, lf', t')"
  shows "r = Some i \<or> (r = Some (Suc i) \<and> Suc i < length argv)"
  using assms
  by (auto simp: parse_argument_def parse_help_option_def parse_long_argument_def
        parse_short_argument_def argv_at_def to_string_def
      split: sum.splits option.splits argument_t.splits if_splits prod.splits)

lemma parse_loop_no_memory_fault:
  "argp \<le> length argv \<Longrightarrow> parse_loop opts prog argv argp option listflag m_table = Inl e
     \<Longrightarrow> \<not> memory_fault e"
proof (induction "length argv - argp" arbitrary: argp option listflag m_table rule: less_induct)
  case less
  show ?case
  proof (cases "argp = length argv")
    case True
    with less.prems(2) show ?thesis
      by (simp add: parse_loop_end)
  next
    case False
    with less.prems(1) have lt: "argp < length argv" by simp
    show ?thesis
    proof (cases "find_option opts (argv ! argp)")
      case None
      show ?thesis
      proof (cases listflag)
        case True
        show ?thesis
        proof (cases "set_value opts m_table option (argv ! argp)")
          case (Inl e')
          with less.prems(2) lt None True have "e = e'"
            by (simp add: parse_loop_collect)
          with Inl show ?thesis
            by (auto simp: memory_fault_def dest: set_value_failure)
        next
          case (Inr r)
          obtain rc t' where r: "r = (rc, t')" by (cases r)
          with less.prems(2) lt None True Inr
          have "parse_loop opts prog argv (Suc argp) option True t' = Inl e"
            by (simp add: parse_loop_collect)
          moreover from lt have "length argv - Suc argp < length argv - argp" by simp
          moreover from lt have "Suc argp \<le> length argv" by simp
          ultimately show ?thesis
            using less.hyps by blast
        qed
      next
        case False
        with less.prems(2) lt None show ?thesis
          by (auto simp: parse_loop_invalid memory_fault_def)
      qed
    next
      case (Some d)
      note step = parse_loop_option [OF lt Some, of prog option listflag m_table]
      show ?thesis
      proof (cases "parse_argument opts prog m_table argv (Some d) argp False")
        case (Inl e')
        with less.prems(2) step have "e = e'" by simp
        with Inl lt show ?thesis
          by (auto dest: parse_argument_failure)
      next
        case (Inr r)
        obtain c lf' t' where r: "r = (c, lf', t')" by (cases r)
        from parse_argument_cursor [OF lt Inr [unfolded r]]
        obtain i' where c: "c = Some i'" and i': "argp \<le> i'" "i' < length argv"
          using lt by auto
        with less.prems(2) step Inr r
        have "parse_loop opts prog argv (Suc i') (argv ! argp) lf' t' = Inl e"
          by simp
        moreover from i' have "length argv - Suc i' < length argv - argp" by simp
        moreover from i' have "Suc i' \<le> length argv" by simp
        ultimately show ?thesis
          using less.hyps by blast
      qed
    qed
  qed
qed

section \<open>The code's lookup and the specification's matching\<close>

lemma is_option_data_spec:
  "is_option_data (Some d) t \<longleftrightarrow> spec_matches d t"
  by (simp add: is_option_data_Some spec_matches_def spec_strip_value_def
      extract_option_takeWhile)

lemma find_option_None_spec:
  "find_option opts t = None \<longleftrightarrow> (\<forall>d\<in>set opts. \<not> spec_matches d t)"
  by (simp add: find_option_None_iff is_option_data_spec)

section \<open>Keys in a well-formed catalog\<close>

lemma wf_key_result:
  "wf_catalog opts \<Longrightarrow> find_option opts s = Some e \<Longrightarrow>
     key_result (Some e) = Inr (spec_canonical_key e)"
  by (simp add: key_result_canonical wf_canonical_key_nonempty find_option_SomeD)

lemma wf_short_dash: "wf_short s \<Longrightarrow> s \<noteq> [] \<Longrightarrow> front_char s = CHR ''-''"
  by (cases s) (auto simp: wf_short_def front_char_def)


lemma wf_short_not_long:
  assumes "wf_short s" and "s \<noteq> []" and "wf_long l"
  shows "s \<noteq> l \<and> extract_option s \<noteq> l"
proof -
  from assms(1,2) obtain c cs where s: "s = CHR ''-'' # c # cs" and c: "c \<noteq> CHR ''-''"
    by (cases s; cases "tl s") (auto simp: wf_short_def)
  have "l = [] \<or> (\<exists>r. l = CHR ''-'' # CHR ''-'' # r)"
    using assms(3) by (cases l; cases "tl l") (auto simp: wf_long_def)
  with s c show ?thesis
    by (auto simp: extract_option_takeWhile)
qed




lemma to_key_bare:
  assumes "front_char K \<noteq> CHR ''-''"
  shows "to_key opts K =
     (case find_option opts (''--'' @ K) of
        Some e \<Rightarrow> key_result (Some e)
      | None \<Rightarrow> key_result (find_option opts (''-'' @ K)))"
  using assms
  by (auto simp: to_key_resolve spec_resolve_def front_char_dash find_option_spec
      split: option.splits)


section \<open>Storing values\<close>

lemma get_first_value:
  assumes "to_key opts K = Inr k" and "m_table k = None"
  shows "get opts (append_value m_table k v) K = Inr v"
  using assms by (simp add: get_def has_def append_value_def)

lemma set_value_append:
  assumes "to_key opts K = Inr k" and "k \<noteq> []"
  shows "set_value opts m_table K v = Inr (0, append_value m_table k v)"
  using assms by (simp add: set_value_def append_value_def)

lemma foldl_append_value:
  "vs \<noteq> [] \<Longrightarrow>
   foldl (\<lambda>t v. append_value t k v) m_table vs =
     m_table(k \<mapsto> (case m_table k of None \<Rightarrow> [] | Some xs \<Rightarrow> xs) @ vs)"
proof (induction vs arbitrary: m_table)
  case Nil
  then show ?case by simp
next
  case (Cons v vs)
  show ?case
  proof (cases "vs = []")
    case True
    then show ?thesis by (simp add: append_value_def)
  next
    case False
    have "foldl (\<lambda>t v. append_value t k v) m_table (v # vs) =
          foldl (\<lambda>t v. append_value t k v) (append_value m_table k v) vs"
      by simp
    also have "\<dots> = (append_value m_table k v)(k \<mapsto>
          (case append_value m_table k v k of None \<Rightarrow> [] | Some xs \<Rightarrow> xs) @ vs)"
      by (rule Cons.IH [OF False])
    also have "\<dots> = m_table(k \<mapsto> (case m_table k of None \<Rightarrow> [] | Some xs \<Rightarrow> xs) @ v # vs)"
      by (simp add: append_value_def)
    finally show ?thesis .
  qed
qed

lemma list_mode_collects:
  assumes "to_key opts L = Inr k" and "k \<noteq> []"
    and "\<forall>v\<in>set vs. find_option opts v = None"
    and "argv = pre @ vs @ post"
  shows "parse_loop opts prog argv (length pre) L True m_table =
         parse_loop opts prog argv (length pre + length vs) L True
           (foldl (\<lambda>t v. append_value t k v) m_table vs)"
  using assms(3,4)
proof (induction vs arbitrary: pre m_table)
  case Nil
  then show ?case by simp
next
  case (Cons v vs)
  from Cons.prems(2) have lt: "length pre < length argv" and at: "argv ! length pre = v"
    by simp_all
  from Cons.prems(1) have none: "find_option opts (argv ! length pre) = None"
    by (simp add: at)
  from assms(1,2) have "set_value opts m_table L v = Inr (0, append_value m_table k v)"
    by (rule set_value_append)
  with parse_loop_collect [OF lt none, of prog L m_table]
  have "parse_loop opts prog argv (length pre) L True m_table =
        parse_loop opts prog argv (Suc (length pre)) L True (append_value m_table k v)"
    by (simp add: at)
  also from Cons.prems have "\<dots> =
        parse_loop opts prog argv (length (pre @ [v]) + length vs) L True
          (foldl (\<lambda>t v. append_value t k v) (append_value m_table k v) vs)"
    using Cons.IH [of "pre @ [v]" "append_value m_table k v"] by simp
  finally show ?case by simp
qed



lemma wf_stored_list_key:
  assumes wf: "wf_catalog opts" and f: "find_option opts L = Some d"
    and dash: "front_char L = CHR ''-''"
    and j: "j < length argv" and none: "find_option opts (argv ! j) = None"
  shows "parse_list_argument opts m_table argv j L True =
           Inr (True, append_value m_table (spec_canonical_key d) (argv ! j))"
proof -
  from f have mem: "d \<in> set opts" by (simp add: find_option_SomeD)
  from wf mem have kne: "spec_canonical_key d \<noteq> []" by (rule wf_canonical_key_nonempty)
  from wf f dash have "to_key opts L = Inr (spec_canonical_key d)" by (rule wf_to_key)
  from this kne have "set_value opts m_table L (argv ! j) =
        Inr (0, append_value m_table (spec_canonical_key d) (argv ! j))"
    by (rule set_value_append)
  with j none show ?thesis
    by (simp add: parse_list_argument_def argv_at_in to_string_def is_option_iff_find)
qed

lemma no_argument_leaves_table:
  assumes "i < length argv" and "find_option opts (argv ! i) = Some d"
    and "argument d = no_argument" and "longopt d \<noteq> ''--help''" and "shortopt d \<noteq> ''-?''"
  shows "parse_loop opts prog argv i option listflag m_table =
           parse_loop opts prog argv (Suc i) (argv ! i) False m_table"
proof -
  from assms(1,3-5)
  have "parse_argument opts prog m_table argv (Some d) i False = Inr (Some i, False, m_table)"
    by (simp add: parse_argument_def argv_at_in to_string_def parse_help_option_def)
  with parse_loop_option [OF assms(1,2), of prog option listflag m_table]
  show ?thesis by simp
qed

section \<open>The usage text\<close>

lemma usage_entry_plain:
  assumes "CHR 0x00 \<notin> set (shortopt d)" and "CHR 0x00 \<notin> set (longopt d)"
    and "CHR 0x00 \<notin> set (name d)" and "CHR 0x00 \<notin> set (desc d)"
    and "length (name d) \<le> 28"
  shows "usage_entry d =
     [CHR 0x0A] @ ''    '' @ shortopt d @ '', '' @ longopt d
       @ (if name d = [] then [] else ''=<'' @ name d @ ''>'')
       @ [CHR 0x0A] @ ''        '' @ desc d @ [CHR 0x0A]"
proof -
  have c: "c_str s = s" if "CHR 0x00 \<notin> set s" for s
    using that unfolding c_str_def by (induction s) auto
  from assms show ?thesis
    by (simp add: usage_entry_def c kArgumentNameLength_def)
qed

section \<open>What the table handed back holds\<close>

text \<open>
  The scan only ever appends: whatever a key holds at some state of the scan is a prefix of
  what it holds in the table that \<open>parse\<close> hands back.
\<close>

lemma set_value_extends:
  assumes "set_value opts t K v = Inr (rc, t')" and "t k = Some xs"
  shows "\<exists>zs. t' k = Some (xs @ zs)"
  using assms
  by (auto simp: set_value_def split: sum.splits if_splits)

lemma parse_argument_extends:
  assumes "parse_argument opts prog t argv data i lf = Inr (c, lf', t')" and "t k = Some xs"
  shows "\<exists>zs. t' k = Some (xs @ zs)"
proof -
  have same: "\<exists>zs. t k = Some (xs @ zs)"
    using assms(2) by simp
  from assms(1) have "t' = t \<or> (\<exists>K v rc. set_value opts t K v = Inr (rc, t'))"
    by (auto simp: parse_argument_def
        split: sum.splits option.splits argument_t.splits if_splits prod.splits)
  with same assms(2) show ?thesis
    by (auto dest: set_value_extends)
qed

lemma parse_loop_extends:
  "parse_loop opts prog argv i option lf t = Inr T \<Longrightarrow> t k = Some xs
     \<Longrightarrow> \<exists>ys. T k = Some (xs @ ys)"
proof (induction "Suc (length argv) - i" arbitrary: i option lf t xs rule: less_induct)
  case less
  have le: "i \<le> length argv"
  proof (rule ccontr)
    assume "\<not> i \<le> length argv"
    then have "argv_at argv i = Inl OutOfBounds" by (simp add: argv_at_def)
    with less.prems(1) show False
      by (subst (asm) parse_loop.simps) simp
  qed
  show ?case
  proof (cases "i = length argv")
    case True
    with less.prems show ?thesis
      by (simp add: parse_loop_end)
  next
    case False
    with le have lt: "i < length argv" by simp
    show ?thesis
    proof (cases "find_option opts (argv ! i)")
      case None
      show ?thesis
      proof (cases lf)
        case True
        show ?thesis
        proof (cases "set_value opts t option (argv ! i)")
          case (Inl e)
          with less.prems(1) lt None True show ?thesis
            by (simp add: parse_loop_collect)
        next
          case (Inr r)
          obtain rc t' where r: "r = (rc, t')" by (cases r)
          from Inr r less.prems(2) obtain zs where z: "t' k = Some (xs @ zs)"
            by (auto dest: set_value_extends)
          from less.prems(1) lt None True Inr r
          have "parse_loop opts prog argv (Suc i) option True t' = Inr T"
            by (simp add: parse_loop_collect)
          moreover from lt have "Suc (length argv) - Suc i < Suc (length argv) - i" by simp
          ultimately obtain ys where "T k = Some ((xs @ zs) @ ys)"
            using less.hyps z by blast
          then show ?thesis by simp
        qed
      next
        case False
        with less.prems(1) lt None show ?thesis
          by (simp add: parse_loop_invalid)
      qed
    next
      case (Some d)
      note step = parse_loop_option [OF lt Some, of prog option lf t]
      show ?thesis
      proof (cases "parse_argument opts prog t argv (Some d) i False")
        case (Inl e)
        with less.prems(1) step show ?thesis by simp
      next
        case (Inr r)
        obtain c lf' t' where r: "r = (c, lf', t')" by (cases r)
        from Inr r less.prems(2) obtain zs where z: "t' k = Some (xs @ zs)"
          by (auto dest: parse_argument_extends)
        from parse_argument_cursor [OF lt Inr [unfolded r]]
        obtain i' where c: "c = Some i'" and i': "i \<le> i'" "i' < length argv"
          using lt by auto
        with less.prems(1) step Inr r
        have "parse_loop opts prog argv (Suc i') (argv ! i) lf' t' = Inr T"
          by simp
        moreover from i' have "Suc (length argv) - Suc i' < Suc (length argv) - i" by simp
        ultimately obtain ys where "T k = Some ((xs @ zs) @ ys)"
          using less.hyps z by blast
        then show ?thesis by simp
      qed
    qed
  qed
qed

lemma get_head_value:
  assumes "to_key opts K = Inr k" and "T k = Some (x # xs)"
  shows "get opts T K = Inr x"
  using assms by (simp add: get_def has_def)

lemma append_value_at:
  "append_value t k v k = Some ((case t k of None \<Rightarrow> [] | Some xs \<Rightarrow> xs) @ [v])"
  by (simp add: append_value_def)

lemma final_table_after_append:
  assumes eq: "parse_loop opts prog argv i option lf t =
               parse_loop opts prog argv j option' lf' (append_value t k v)"
    and fin: "parse_loop opts prog argv i option lf t = Inr T"
    and key: "to_key opts K = Inr k"
  shows "(\<exists>ys. T k = Some ((case t k of None \<Rightarrow> [] | Some xs \<Rightarrow> xs) @ v # ys))
       \<and> get opts T K = Inr (hd ((case t k of None \<Rightarrow> [] | Some xs \<Rightarrow> xs) @ [v]))"
proof -
  let ?old = "case t k of None \<Rightarrow> [] | Some xs \<Rightarrow> xs"
  from eq fin have "parse_loop opts prog argv j option' lf' (append_value t k v) = Inr T"
    by simp
  from parse_loop_extends [OF this append_value_at]
  obtain ys where T: "T k = Some (?old @ v # ys)" by auto
  have "?old @ v # ys = hd (?old @ [v]) # tl (?old @ v # ys)"
    by (cases ?old) simp_all
  with T have "T k = Some (hd (?old @ [v]) # tl (?old @ v # ys))" by simp
  with key have "get opts T K = Inr (hd (?old @ [v]))" by (rule get_head_value)
  with T show ?thesis by blast
qed

section \<open>Steps of the scan that store values\<close>

lemma long_value_step:
  assumes wf: "wf_catalog opts"
    and i: "i < length argv"
    and f: "find_option opts (argv ! i) = Some d"
    and a: "argument d = required_argument \<or> argument d = optional_argument"
    and l: "longopt d = ''--'' @ opt"
    and ext: "extract_option (argv ! i) = ''--'' @ opt"
  shows "parse_long_argument argv i = Inr (i, ''--'' @ opt, extract_value (argv ! i))"
    and "find_option opts (''--'' @ opt) = Some d"
    and "to_key opts (''--'' @ opt) = Inr opt"
    and "parse_argument opts prog m_table argv (Some d) i listflag =
           Inr (Some i, listflag, append_value m_table opt (extract_value (argv ! i)))"
    and "parse_loop opts prog argv i option listflag m_table =
           parse_loop opts prog argv (Suc i) (argv ! i) False
             (append_value m_table opt (extract_value (argv ! i)))"
proof -
  from f have mem: "d \<in> set opts" by (simp add: find_option_SomeD)
  with wf l have "wf_long (''--'' @ opt)"
    using wf_catalog_memD [of opts d] by simp
  then have optne: "opt \<noteq> []" by (auto simp: wf_long_def)
  have ck: "spec_canonical_key d = opt"
    by (simp add: spec_canonical_key_def l)
  from i ext show pl: "parse_long_argument argv i = Inr (i, ''--'' @ opt, extract_value (argv ! i))"
    by (simp add: parse_long_argument_def argv_at_in to_string_def)
  from wf f ext l show fl: "find_option opts (''--'' @ opt) = Some d"
    using wf_find_long [of opts "argv ! i" d] by simp
  with wf ck show key: "to_key opts (''--'' @ opt) = Inr opt"
    using wf_to_key [of opts "''--'' @ opt" d] by (simp add: front_char_def)
  from ext l have il: "is_long_option_data (Some d) (argv ! i)"
    by (simp add: is_long_option_data_def)
  from key optne have sv: "set_value opts m (''--'' @ opt) w = Inr (0, append_value m opt w)"
    for m w
    by (rule set_value_append)
  from a i il pl sv
  show "parse_argument opts prog m_table argv (Some d) i listflag =
           Inr (Some i, listflag, append_value m_table opt (extract_value (argv ! i)))"
    by (auto simp: parse_argument_def argv_at_in to_string_def)
  from a i il pl sv
  have "parse_argument opts prog m_table argv (Some d) i False =
           Inr (Some i, False, append_value m_table opt (extract_value (argv ! i)))"
    by (auto simp: parse_argument_def argv_at_in to_string_def)
  with parse_loop_option [OF i f, of prog option listflag m_table]
  show "parse_loop opts prog argv i option listflag m_table =
           parse_loop opts prog argv (Suc i) (argv ! i) False
             (append_value m_table opt (extract_value (argv ! i)))"
    by simp
qed

lemma short_value_step:
  assumes wf: "wf_catalog opts"
    and i: "Suc i < length argv"
    and f: "find_option opts (argv ! i) = Some d"
    and a: "argument d = required_argument \<or> argument d = optional_argument"
    and s: "argv ! i = shortopt d" and ne: "shortopt d \<noteq> []"
    and ps: "parse_short_argument opts argv i = Inr (c, w)"
  shows "to_key opts (shortopt d) = Inr (spec_canonical_key d)"
    and "parse_argument opts prog m_table argv (Some d) i listflag =
           Inr (Some c, listflag, append_value m_table (spec_canonical_key d) w)"
    and "parse_loop opts prog argv i option listflag m_table =
           parse_loop opts prog argv (Suc c) (argv ! i) False
             (append_value m_table (spec_canonical_key d) w)"
proof -
  from i have lt: "i < length argv" by simp
  from f have mem: "d \<in> set opts" by (simp add: find_option_SomeD)
  with wf have wd: "wf_short (shortopt d)" "wf_long (longopt d)"
    by (simp_all add: wf_catalog_memD)
  from wd(1) ne have dash: "front_char (argv ! i) = CHR ''-''"
    by (simp add: s wf_short_dash)
  with wf f have key: "to_key opts (argv ! i) = Inr (spec_canonical_key d)"
    by (rule wf_to_key)
  then show "to_key opts (shortopt d) = Inr (spec_canonical_key d)"
    by (simp add: s)
  from wf mem have kne: "spec_canonical_key d \<noteq> []"
    by (rule wf_canonical_key_nonempty)
  from wf_short_not_long [OF wd(1) ne wd(2)]
  have nl: "\<not> is_long_option_data (Some d) (argv ! i)"
    by (simp add: is_long_option_data_def s)
  have sh: "is_short_option_data (Some d) (argv ! i)"
    by (simp add: is_short_option_data_def s)
  from key kne have sv: "set_value opts m_table (argv ! i) w =
      Inr (0, append_value m_table (spec_canonical_key d) w)"
    by (rule set_value_append)
  with a lt nl sh ps
  show "parse_argument opts prog m_table argv (Some d) i listflag =
      Inr (Some c, listflag, append_value m_table (spec_canonical_key d) w)"
    by (auto simp: parse_argument_def argv_at_in to_string_def)
  from sv a lt nl sh ps
  have "parse_argument opts prog m_table argv (Some d) i False =
      Inr (Some c, False, append_value m_table (spec_canonical_key d) w)"
    by (auto simp: parse_argument_def argv_at_in to_string_def)
  with parse_loop_option [OF lt f, of prog option listflag m_table]
  show "parse_loop opts prog argv i option listflag m_table =
           parse_loop opts prog argv (Suc c) (argv ! i) False
             (append_value m_table (spec_canonical_key d) w)"
    by simp
qed

lemma list_run_step:
  assumes wf: "wf_catalog opts"
    and argv: "argv = pre @ L # vs @ other # rest"
    and f: "find_option opts L = Some d"
    and a: "argument d = list_argument"
    and dash: "front_char L = CHR ''-''"
    and vs: "vs \<noteq> []" "\<forall>v\<in>set vs. find_option opts v = None"
    and other: "find_option opts other = Some e"
  shows "parse_argument opts prog m_table argv (Some d) (length pre) False =
           Inr (Some (length pre), True, m_table)"
    and "parse_loop opts prog argv (length pre) option listflag m_table =
         parse_loop opts prog argv (length pre + Suc (length vs)) L False
           (m_table(spec_canonical_key d \<mapsto>
              (case m_table (spec_canonical_key d) of None \<Rightarrow> [] | Some xs \<Rightarrow> xs) @ vs))"
    and "parse_loop opts prog argv (length pre + Suc (length vs)) L False t =
           (case parse_argument opts prog t argv (Some e) (length pre + Suc (length vs)) False of
              Inl x \<Rightarrow> Inl x
            | Inr (None, listflag', t') \<Rightarrow> Inl NullPointer
            | Inr (Some i', listflag', t') \<Rightarrow>
                parse_loop opts prog argv (Suc i') other listflag' t')"
proof -
  let ?k = "spec_canonical_key d"
  let ?t = "m_table(?k \<mapsto> (case m_table ?k of None \<Rightarrow> [] | Some xs \<Rightarrow> xs) @ vs)"
  let ?j = "length pre + Suc (length vs)"
  from argv have lt: "length pre < length argv" and at: "argv ! length pre = L"
    by simp_all
  from argv have lt2: "?j < length argv" and at2: "argv ! ?j = other"
    by (simp_all add: nth_append)
  have fe: "find_option opts (argv ! ?j) = Some e"
    unfolding at2 by (rule other)
  from f have mem: "d \<in> set opts" by (simp add: find_option_SomeD)
  from wf f dash have key: "to_key opts L = Inr ?k" by (rule wf_to_key)
  from wf mem have kne: "?k \<noteq> []" by (rule wf_canonical_key_nonempty)
  from vs(1) argv have nxt: "argv_at argv (Suc (length pre)) = Inr (Some (hd vs))"
    by (cases vs) (simp_all add: argv_at_def nth_append)
  with a lt
  show pa: "parse_argument opts prog m_table argv (Some d) (length pre) False =
        Inr (Some (length pre), True, m_table)"
    by (simp add: parse_argument_def argv_at_in to_string_def)
  with parse_loop_option [OF lt, of opts d prog option listflag m_table] f
  have "parse_loop opts prog argv (length pre) option listflag m_table =
        parse_loop opts prog argv (Suc (length pre)) L True m_table"
    by (simp add: at)
  also have "\<dots> = parse_loop opts prog argv (length (pre @ [L]) + length vs) L True
           (foldl (\<lambda>t v. append_value t ?k v) m_table vs)"
  proof -
    from argv have "argv = (pre @ [L]) @ vs @ (other # rest)" by simp
    with vs(2) show ?thesis
      using list_mode_collects [OF key kne, of vs argv "pre @ [L]" "other # rest" prog m_table]
      by simp
  qed
  also have "\<dots> = parse_loop opts prog argv ?j L True ?t"
    by (simp add: foldl_append_value [OF vs(1)])
  also have "\<dots> = parse_loop opts prog argv ?j L False ?t"
    using parse_loop_option [OF lt2 fe, of prog L True ?t]
      parse_loop_option [OF lt2 fe, of prog L False ?t]
    by simp
  finally show "parse_loop opts prog argv (length pre) option listflag m_table =
      parse_loop opts prog argv ?j L False ?t" .
  show "parse_loop opts prog argv ?j L False t =
               (case parse_argument opts prog t argv (Some e) ?j False of
                  Inl x \<Rightarrow> Inl x
                | Inr (None, listflag', t') \<Rightarrow> Inl NullPointer
                | Inr (Some i', listflag', t') \<Rightarrow>
                    parse_loop opts prog argv (Suc i') other listflag' t')"
    by (rule parse_loop_option [OF lt2 fe, of prog L False t, unfolded at2])
qed

section \<open>The example catalog\<close>

lemma wf_example_catalog: "wf_catalog example_catalog"
  by (simp add: wf_catalog_def example_catalog_def wf_short_def wf_long_def
      verbose_option_def output_option_def tags_option_def help_option_def quiet_option_def)

lemma find_example:
  "find_option example_catalog ''-v'' = Some verbose_option"
  "find_option example_catalog ''--output=out.txt'' = Some output_option"
  "find_option example_catalog ''--output'' = Some output_option"
  "find_option example_catalog ''-o'' = Some output_option"
  "find_option example_catalog ''--tags'' = Some tags_option"
  "find_option example_catalog ''-?'' = Some help_option"
  "find_option example_catalog ''-q'' = Some quiet_option"
  "find_option example_catalog ''--bogus'' = None"
  "find_option example_catalog ''a'' = None"
  "find_option example_catalog ''b'' = None"
  "find_option example_catalog ''c'' = None"
  "find_option example_catalog ''x'' = None"
  "find_option example_catalog ''3'' = None"
  "find_option example_catalog ''--q'' = None"
  "find_option example_catalog ''-bogus'' = None"
  "find_option example_catalog ''--output=x'' = Some output_option"
  "find_option example_catalog [] = Some tags_option"
  by (simp_all add: example_catalog_def is_option_data_Some extract_option_takeWhile
      verbose_option_def output_option_def tags_option_def help_option_def quiet_option_def)

lemma example_keys:
  "spec_canonical_key verbose_option = ''verbose''"
  "spec_canonical_key output_option = ''output''"
  "spec_canonical_key tags_option = ''tags''"
  "spec_canonical_key quiet_option = ''q''"
  by (simp_all add: spec_canonical_key_def
      verbose_option_def output_option_def tags_option_def quiet_option_def)

lemma example_fields:
  "argument verbose_option = no_argument" "argument output_option = required_argument"
  "argument tags_option = list_argument" "argument help_option = no_argument"
  "argument quiet_option = optional_argument"
  "shortopt verbose_option = ''-v''" "longopt verbose_option = ''--verbose''"
  "shortopt output_option = ''-o''" "longopt output_option = ''--output''"
  "shortopt help_option = ''-?''" "longopt help_option = ''--help''"
  "shortopt quiet_option = ''-q''" "longopt quiet_option = []"
  by (simp_all add: verbose_option_def output_option_def tags_option_def help_option_def
      quiet_option_def)

lemma to_key_example:
  "to_key example_catalog ''-v'' = Inr ''verbose''"
  "to_key example_catalog ''verbose'' = Inr ''verbose''"
  "to_key example_catalog ''-o'' = Inr ''output''"
  by (simp_all add: to_key_resolve spec_resolve_def key_result_def substr_from_def
      spec_matches_def spec_strip_value_def example_catalog_def
      verbose_option_def output_option_def tags_option_def help_option_def quiet_option_def)

lemma parse_from_loop:
  "2 \<le> length argv \<Longrightarrow>
   parse opts prog argv m_table = parse_loop opts prog argv 1 (argv ! 1) False m_table"
  by (simp add: parse_def argv_at_def to_string_def)

lemma find_example_output_value:
  "find_option example_catalog (''--output='' @ v) = Some output_option"
  by (simp add: example_catalog_def is_option_data_Some extract_option_takeWhile
      verbose_option_def output_option_def tags_option_def help_option_def quiet_option_def)

lemma example_long_step:
  assumes "i < length argv" and "argv ! i = ''--output='' @ v"
  shows "parse_loop example_catalog prog argv i option listflag m_table =
         parse_loop example_catalog prog argv (Suc i) (argv ! i) False
           (append_value m_table ''output'' v)"
proof -
  have f: "find_option example_catalog (argv ! i) = Some output_option"
    unfolding assms(2) by (rule find_example_output_value)
  have a: "argument output_option = required_argument \<or> argument output_option = optional_argument"
    and l: "longopt output_option = ''--'' @ ''output''"
    by (simp_all add: example_fields)
  have ext: "extract_option (argv ! i) = ''--'' @ ''output''"
    and val: "extract_value (argv ! i) = v"
    unfolding assms(2) by (simp_all add: extract_option_takeWhile extract_value_dropWhile)
  from long_value_step(5) [OF wf_example_catalog assms(1) f a l ext, where prog = prog
      and option = option and listflag = listflag and m_table = m_table]
  show ?thesis unfolding val .
qed

lemma example_short_step:
  assumes "Suc i < length argv" and "argv ! i = ''-o''"
    and "find_option example_catalog (argv ! Suc i) = None"
  shows "parse_loop example_catalog prog argv i option listflag m_table =
         parse_loop example_catalog prog argv (Suc (Suc i)) (argv ! i) False
           (append_value m_table ''output'' (argv ! Suc i))"
proof -
  have f: "find_option example_catalog (argv ! i) = Some output_option"
    unfolding assms(2) by (rule find_example)
  have a: "argument output_option = required_argument \<or> argument output_option = optional_argument"
    and s: "argv ! i = shortopt output_option" and ne: "shortopt output_option \<noteq> []"
    by (simp_all add: example_fields assms(2))
  from assms(1,3) have ps: "parse_short_argument example_catalog argv i = Inr (Suc i, argv ! Suc i)"
    by (simp add: parse_short_argument_def argv_at_in is_option_iff_find)
  from short_value_step(3) [OF wf_example_catalog assms(1) f a s ne ps, where prog = prog
      and option = option and listflag = listflag and m_table = m_table]
  show ?thesis by (simp add: example_keys)
qed

lemma to_key_example_empty: "to_key example_catalog [] = Inr []"
  by (simp add: to_key_resolve spec_resolve_def key_result_def
      spec_matches_def spec_strip_value_def example_catalog_def
      verbose_option_def output_option_def tags_option_def help_option_def quiet_option_def)

lemma example_dropped_step:
  assumes "i < length argv" and "find_option example_catalog (argv ! i) = None"
  shows "parse_loop example_catalog prog argv i [] True m_table =
         parse_loop example_catalog prog argv (Suc i) [] True m_table"
  using parse_loop_collect [OF assms, of prog "[]" m_table]
  by (simp add: set_value_def to_key_example_empty)

lemma wf_small_catalogs: "wf_catalog long_only_catalog" "wf_catalog dash_catalog"
  by (simp_all add: wf_catalog_def long_only_catalog_def dash_catalog_def wf_short_def
      wf_long_def file_option_def dash_option_def)

section \<open>The claims\<close>

text \<open>
  Claim C1 says that after a token of a \<open>no_argument\<close> option (not the help option) the
  table holds a value-less presence for the option's key: \<open>has\<close> is true and \<open>get\<close> is the
  empty string. The code returns from the \<open>no_argument\<close> case of \<open>parse_argument\<close> before
  the call of \<open>set\<close>, so nothing is recorded (lemma \<open>no_argument_leaves_table\<close>). At the
  example catalog and the arguments \<open>-v\<close>: the table stays empty and \<open>has\<close> answers false.
\<close>

theorem flag_is_not_recorded:
  "parse example_catalog ''prog'' [''prog'', ''-v''] Map.empty = Inr Map.empty \<and>
   has example_catalog Map.empty ''-v'' = Inr False \<and>
   has example_catalog Map.empty ''verbose'' = Inr False \<and>
   get example_catalog Map.empty ''verbose'' = Inr []"
proof -
  have f: "find_option example_catalog ([''prog'', ''-v''] ! 1) = Some verbose_option"
    by (simp add: find_example)
  have d: "argument verbose_option = no_argument"
    "longopt verbose_option \<noteq> ''--help''" "shortopt verbose_option \<noteq> ''-?''"
    by (simp_all add: example_fields)
  have "parse_loop example_catalog ''prog'' [''prog'', ''-v''] 1 ''-v'' False Map.empty =
        parse_loop example_catalog ''prog'' [''prog'', ''-v''] (Suc 1) ([''prog'', ''-v''] ! 1)
          False Map.empty"
    by (rule no_argument_leaves_table [OF _ f d]) simp
  also have "\<dots> = Inr Map.empty"
    using parse_loop_end [of example_catalog "''prog''" "[''prog'', ''-v'']" "''-v''" False Map.empty]
    by simp
  finally have p: "parse example_catalog ''prog'' [''prog'', ''-v''] Map.empty = Inr Map.empty"
    by (simp add: parse_from_loop)
  from p show ?thesis
    by (simp add: has_def get_def to_key_example)
qed

text \<open>
  Claim C2. \<open>parse\<close> needs a token after the program name: on an argument vector that holds
  the program name only, the entry at index 1 is the terminating null pointer, and \<open>parse\<close>
  builds a string from it before the loop tests it. On every argument vector with at least
  one token after the program name, that first read and every read of the loop stay inside
  the vector and meet no null pointer: \<open>parse\<close> ends in none of the three failures that
  stand for such a read.
\<close>

theorem parse_reads_in_bounds:
  "parse opts prog [p] m_table = Inl NullString \<and>
   (2 \<le> length argv \<longrightarrow>
      parse opts prog argv m_table \<noteq> Inl NullString \<and>
      parse opts prog argv m_table \<noteq> Inl OutOfBounds \<and>
      parse opts prog argv m_table \<noteq> Inl NullPointer)"
proof -
  have one: "parse opts prog [p] m_table = Inl NullString"
    by (simp add: parse_def argv_at_def to_string_def)
  have two: "\<not> memory_fault e"
    if "2 \<le> length argv" and "parse opts prog argv m_table = Inl e" for e
  proof -
    from that(1) have "argv_at argv 1 = Inr (Some (argv ! 1))"
      by (simp add: argv_at_def)
    with that(2) have "parse_loop opts prog argv 1 (argv ! 1) False m_table = Inl e"
      by (simp add: parse_def to_string_def)
    moreover from that(1) have "1 \<le> length argv" by simp
    ultimately show ?thesis
      by (rule parse_loop_no_memory_fault [rotated])
  qed
  from one two show ?thesis
    by (auto simp: memory_fault_def)
qed

theorem parse_reads_in_bounds_witness:
  "parse example_catalog ''prog'' [''prog''] Map.empty = Inl NullString \<and>
   (2::nat) \<le> length [''prog'', ''--bogus''] \<and>
   parse example_catalog ''prog'' [''prog'', ''--bogus''] Map.empty \<noteq> Inl NullString \<and>
   parse example_catalog ''prog'' [''prog'', ''--bogus''] Map.empty \<noteq> Inl OutOfBounds \<and>
   parse example_catalog ''prog'' [''prog'', ''--bogus''] Map.empty \<noteq> Inl NullPointer"
  using parse_reads_in_bounds [of example_catalog "''prog''" "''prog''" Map.empty
      "[''prog'', ''--bogus'']"]
  by simp

text \<open>
  Claim C3, as amended. In a well-formed catalog, a list option's token that starts with a
  dash, followed by tokens that match no descriptor (\<open>a b c\<close>) and then by a token that
  matches one: \<open>parse_argument\<close> turns list mode on at the option's token and leaves the
  table alone; \<open>parse_list_argument\<close> appends each of the tokens in between, in their order,
  to the value sequence of the list option's canonical key, and at the matching token it
  ends list mode and stores nothing. So the scan arrives at the matching token with list
  mode off and the key's sequence extended by \<open>a b c\<close> (it is exactly \<open>a b c\<close> when the key
  held nothing before), resolves that token to its descriptor and hands it to
  \<open>parse_argument\<close> as an option of its own; and in every table that \<open>parse\<close> hands back
  the key's sequence starts with the old values followed by \<open>a b c\<close>.
\<close>

theorem list_option_collects:
  assumes wf: "wf_catalog opts"
    and argv: "argv = pre @ L # vs @ other # rest"
    and f: "find_option opts L = Some d"
    and a: "argument d = list_argument"
    and dash: "front_char L = CHR ''-''"
    and vs: "vs \<noteq> []" "\<forall>v\<in>set vs. \<forall>e\<in>set opts. \<not> spec_matches e v"
    and other: "\<exists>e\<in>set opts. spec_matches e other"
  shows "parse_argument opts prog m_table argv (Some d) (length pre) False =
           Inr (Some (length pre), True, m_table)
       \<and> (\<forall>j<length vs. \<forall>t. parse_list_argument opts t argv (Suc (length pre) + j) L True =
             Inr (True, append_value t (spec_canonical_key d) (vs ! j)))
       \<and> (\<forall>t. parse_list_argument opts t argv (length pre + Suc (length vs)) L True =
             Inr (False, t))
       \<and> parse_loop opts prog argv (length pre) option listflag m_table =
         parse_loop opts prog argv (length pre + Suc (length vs)) L False
           (m_table(spec_canonical_key d \<mapsto>
              (case m_table (spec_canonical_key d) of None \<Rightarrow> [] | Some xs \<Rightarrow> xs) @ vs))
       \<and> (\<exists>e. find_option opts other = Some e \<and>
            (\<forall>t. parse_loop opts prog argv (length pre + Suc (length vs)) L False t =
               (case parse_argument opts prog t argv (Some e) (length pre + Suc (length vs)) False of
                  Inl x \<Rightarrow> Inl x
                | Inr (None, listflag', t') \<Rightarrow> Inl NullPointer
                | Inr (Some i', listflag', t') \<Rightarrow>
                    parse_loop opts prog argv (Suc i') other listflag' t')))
       \<and> (\<forall>T. parse_loop opts prog argv (length pre) option listflag m_table = Inr T \<longrightarrow>
            (\<exists>ys. T (spec_canonical_key d) =
               Some ((case m_table (spec_canonical_key d) of None \<Rightarrow> [] | Some xs \<Rightarrow> xs)
                       @ vs @ ys)))"
proof -
  let ?k = "spec_canonical_key d"
  let ?old = "case m_table ?k of None \<Rightarrow> [] | Some xs \<Rightarrow> xs"
  let ?j = "length pre + Suc (length vs)"
  from vs(2) have none: "\<forall>v\<in>set vs. find_option opts v = None"
    by (simp add: find_option_None_spec)
  from other have "find_option opts other \<noteq> None"
    by (simp add: find_option_None_spec)
  then obtain e where e: "find_option opts other = Some e" by auto
  note st = list_run_step [OF wf argv f a dash vs(1) none e]
  have p1: "parse_argument opts prog m_table argv (Some d) (length pre) False =
           Inr (Some (length pre), True, m_table)"
    by (rule st(1))
  have p2: "parse_list_argument opts t argv (Suc (length pre) + j) L True =
             Inr (True, append_value t ?k (vs ! j))" if j: "j < length vs" for j t
  proof -
    from argv j have lt: "Suc (length pre) + j < length argv"
      and at: "argv ! (Suc (length pre) + j) = vs ! j"
      by (simp_all add: nth_append)
    from none j have "find_option opts (vs ! j) = None" by simp
    then have "find_option opts (argv ! (Suc (length pre) + j)) = None"
      unfolding at .
    from wf_stored_list_key [OF wf f dash lt this, of t] show ?thesis
      unfolding at .
  qed
  have p3: "parse_list_argument opts t argv ?j L True = Inr (False, t)" for t
  proof -
    from argv have lt2: "?j < length argv" and at2: "argv ! ?j = other"
      by (simp_all add: nth_append)
    have "find_option opts (argv ! ?j) = Some e" unfolding at2 by (rule e)
    with lt2 show ?thesis by (rule parse_list_argument_option)
  qed
  have p4: "parse_loop opts prog argv (length pre) option listflag m_table =
         parse_loop opts prog argv ?j L False (m_table(?k \<mapsto> ?old @ vs))"
    by (rule st(2))
  have p5: "\<forall>t. parse_loop opts prog argv ?j L False t =
               (case parse_argument opts prog t argv (Some e) ?j False of
                  Inl x \<Rightarrow> Inl x
                | Inr (None, listflag', t') \<Rightarrow> Inl NullPointer
                | Inr (Some i', listflag', t') \<Rightarrow>
                    parse_loop opts prog argv (Suc i') other listflag' t')"
    using st(3) by blast
  have p6: "\<exists>ys. T ?k = Some (?old @ vs @ ys)"
    if T: "parse_loop opts prog argv (length pre) option listflag m_table = Inr T" for T
  proof -
    from p4 T have "parse_loop opts prog argv ?j L False (m_table(?k \<mapsto> ?old @ vs)) = Inr T"
      by simp
    from parse_loop_extends [OF this, of ?k "?old @ vs"] show ?thesis by simp
  qed
  from p1 p2 p3 p4 p5 p6 e show ?thesis by blast
qed

theorem list_option_collects_witness:
  "wf_catalog example_catalog \<and>
   [''prog'', ''--tags'', ''a'', ''b'', ''c'', ''--output=x'']
     = [''prog''] @ ''--tags'' # [''a'', ''b'', ''c''] @ ''--output=x'' # [] \<and>
   find_option example_catalog ''--tags'' = Some tags_option \<and>
   argument tags_option = list_argument \<and>
   front_char ''--tags'' = CHR ''-'' \<and>
   find_option example_catalog ''a'' = None \<and>
   find_option example_catalog ''b'' = None \<and>
   find_option example_catalog ''c'' = None \<and>
   find_option example_catalog ''--output=x'' = Some output_option \<and>
   parse_list_argument example_catalog Map.empty
     [''prog'', ''--tags'', ''a'', ''b'', ''c'', ''--output=x''] 2 ''--tags'' True
     = Inr (True, append_value Map.empty ''tags'' ''a'') \<and>
   parse_list_argument example_catalog [''tags'' \<mapsto> [''a'', ''b'', ''c'']]
     [''prog'', ''--tags'', ''a'', ''b'', ''c'', ''--output=x''] 5 ''--tags'' True
     = Inr (False, [''tags'' \<mapsto> [''a'', ''b'', ''c'']]) \<and>
   parse example_catalog ''prog'' [''prog'', ''--tags'', ''a'', ''b'', ''c'', ''--output=x''] Map.empty
     = Inr [''tags'' \<mapsto> [''a'', ''b'', ''c''], ''output'' \<mapsto> [''x'']]"
proof -
  let ?argv = "[''prog'', ''--tags'', ''a'', ''b'', ''c'', ''--output=x'']"
  have fo: "find_option example_catalog ''--output=x'' = Some output_option"
    by (simp add: find_example)
  have v: "\<forall>v\<in>set [''a'', ''b'', ''c'']. \<forall>e\<in>set example_catalog. \<not> spec_matches e v"
    using find_example(9-11) by (simp add: find_option_None_spec)
  have o: "\<exists>e\<in>set example_catalog. spec_matches e ''--output=x''"
    using fo find_option_None_spec [of example_catalog "''--output=x''"] by simp
  have a: "argument tags_option = list_argument"
    by (simp add: example_fields)
  have d: "front_char ''--tags'' = CHR ''-''"
    by (simp add: front_char_def)
  have s: "?argv = [''prog''] @ ''--tags'' # [''a'', ''b'', ''c''] @ ''--output=x'' # []"
    by simp
  note t = list_option_collects [OF wf_example_catalog s find_example(5) a d _ v o,
      where prog = "''prog''" and option = "''--tags''" and listflag = False
        and m_table = Map.empty]
  from t have l1: "parse_list_argument example_catalog Map.empty ?argv 2 ''--tags'' True
     = Inr (True, append_value Map.empty ''tags'' ''a'')"
    by (auto simp: example_keys eval_nat_numeral dest!: spec [where x = 0])
  from t have l2: "parse_list_argument example_catalog [''tags'' \<mapsto> [''a'', ''b'', ''c'']]
     ?argv 5 ''--tags'' True = Inr (False, [''tags'' \<mapsto> [''a'', ''b'', ''c'']])"
    by (simp add: eval_nat_numeral)
  from t have "parse_loop example_catalog ''prog'' ?argv 1 ''--tags'' False Map.empty =
        parse_loop example_catalog ''prog'' ?argv 5 ''--tags'' False
          [''tags'' \<mapsto> [''a'', ''b'', ''c'']]"
    by (simp add: example_keys eval_nat_numeral)
  also have "\<dots> = parse_loop example_catalog ''prog'' ?argv (Suc 5) (?argv ! 5) False
          (append_value [''tags'' \<mapsto> [''a'', ''b'', ''c'']] ''output'' ''x'')"
    by (rule example_long_step) simp_all
  also have "\<dots> = Inr (append_value [''tags'' \<mapsto> [''a'', ''b'', ''c'']] ''output'' ''x'')"
    using parse_loop_end [of example_catalog "''prog''" ?argv "''--output=x''" False
        "append_value [''tags'' \<mapsto> [''a'', ''b'', ''c'']] ''output'' ''x''"]
    by (simp add: eval_nat_numeral)
  finally have "parse example_catalog ''prog'' ?argv Map.empty
     = Inr [''tags'' \<mapsto> [''a'', ''b'', ''c''], ''output'' \<mapsto> [''x'']]"
    by (simp add: parse_from_loop append_value_def)
  with wf_example_catalog a d find_example l1 l2 show ?thesis
    by simp
qed

text \<open>
  The claim as it was stated fails in two ways. The empty token equals the absent short form
  of \<open>--tags\<close>, so the scan takes it for that list option; the empty spelling has no key and
  the values \<open>a b c\<close> are dropped. And the values of a list option given twice accumulate, so
  that after the second run the key holds more than that run.
\<close>

theorem list_option_collects_counterexample:
  "wf_catalog example_catalog \<and>
   find_option example_catalog [] = Some tags_option \<and>
   argument tags_option = list_argument \<and>
   find_option example_catalog ''a'' = None \<and>
   find_option example_catalog ''b'' = None \<and>
   find_option example_catalog ''c'' = None \<and>
   find_option example_catalog ''--output=x'' = Some output_option \<and>
   parse example_catalog ''prog'' [''prog'', [], ''a'', ''b'', ''c'', ''--output=x''] Map.empty
     = Inr [''output'' \<mapsto> [''x'']] \<and>
   [''output'' \<mapsto> [''x'']] ''tags'' \<noteq> Some [''a'', ''b'', ''c''] \<and>
   parse example_catalog ''prog''
     [''prog'', ''--tags'', ''x'', ''--output=y'', ''--tags'', ''a'', ''b'', ''c'', ''--output=z'']
     Map.empty
     = Inr [''tags'' \<mapsto> [''x'', ''a'', ''b'', ''c''], ''output'' \<mapsto> [''y'', ''z'']]"
proof -
  let ?a1 = "[''prog'', [], ''a'', ''b'', ''c'', ''--output=x'']"
  let ?a2 = "[''prog'', ''--tags'', ''x'', ''--output=y'', ''--tags'', ''a'', ''b'', ''c'',
              ''--output=z'']"
  have la: "argument tags_option = list_argument" by (simp add: example_fields)
  have "parse_argument example_catalog ''prog'' Map.empty ?a1 (Some tags_option) 1 False =
      Inr (Some 1, True, Map.empty)"
    by (simp add: parse_argument_def argv_at_def to_string_def example_fields)
  with parse_loop_option [of 1 ?a1 example_catalog tags_option "''prog''" "[]" False Map.empty]
  have "parse_loop example_catalog ''prog'' ?a1 1 [] False Map.empty =
        parse_loop example_catalog ''prog'' ?a1 (Suc 1) [] True Map.empty"
    by (simp add: find_example)
  also have "\<dots> = parse_loop example_catalog ''prog'' ?a1 (Suc (Suc 1)) [] True Map.empty"
    by (rule example_dropped_step) (simp_all add: find_example)
  also have "\<dots> = parse_loop example_catalog ''prog'' ?a1 (Suc (Suc (Suc 1))) [] True Map.empty"
    by (rule example_dropped_step) (simp_all add: find_example)
  also have "\<dots> = parse_loop example_catalog ''prog'' ?a1 (Suc (Suc (Suc (Suc 1)))) [] True
      Map.empty"
    by (rule example_dropped_step) (simp_all add: find_example)
  also have "\<dots> = parse_loop example_catalog ''prog'' ?a1 (Suc (Suc (Suc (Suc (Suc 1)))))
      (?a1 ! Suc (Suc (Suc (Suc 1)))) False (append_value Map.empty ''output'' ''x'')"
    by (rule example_long_step) simp_all
  also have "\<dots> = Inr (append_value Map.empty ''output'' ''x'')"
    using parse_loop_end [of example_catalog "''prog''" ?a1 "''--output=x''" False
        "append_value Map.empty ''output'' ''x''"]
    by simp
  finally have p1: "parse example_catalog ''prog'' ?a1 Map.empty = Inr [''output'' \<mapsto> [''x'']]"
    by (simp add: parse_from_loop append_value_def)
  have d: "front_char ''--tags'' = CHR ''-''" by (simp add: front_char_def)
  have fy: "find_option example_catalog ''--output=y'' = Some output_option"
    and fz: "find_option example_catalog ''--output=z'' = Some output_option"
    using find_example_output_value [of "''y''"] find_example_output_value [of "''z''"]
    by simp_all
  let ?t1 = "[''tags'' \<mapsto> [''x'']]"
  let ?t2 = "append_value ?t1 ''output'' ''y''"
  let ?t3 = "?t2(''tags'' \<mapsto> [''x'', ''a'', ''b'', ''c''])"
  let ?t4 = "append_value ?t3 ''output'' ''z''"
  have s1: "?a2 = [''prog''] @ ''--tags'' # [''x''] @ ''--output=y''
              # [''--tags'', ''a'', ''b'', ''c'', ''--output=z'']"
    and s2: "?a2 = [''prog'', ''--tags'', ''x'', ''--output=y''] @ ''--tags''
              # [''a'', ''b'', ''c''] @ ''--output=z'' # []"
    by simp_all
  have "parse_loop example_catalog ''prog'' ?a2 1 ''--tags'' False Map.empty =
        parse_loop example_catalog ''prog'' ?a2 (Suc (Suc (Suc 0))) ''--tags'' False ?t1"
    using list_run_step(2) [OF wf_example_catalog s1 find_example(5) la d _ _ fy,
        where prog = "''prog''" and option = "''--tags''" and listflag = False
          and m_table = Map.empty]
    by (simp add: find_example example_keys)
  also have "\<dots> = parse_loop example_catalog ''prog'' ?a2 (Suc (Suc (Suc (Suc 0))))
        (?a2 ! Suc (Suc (Suc 0))) False ?t2"
    by (rule example_long_step) simp_all
  also have "\<dots> = parse_loop example_catalog ''prog'' ?a2 (Suc (Suc (Suc (Suc (Suc (Suc (Suc (Suc 0))))))))
        ''--tags'' False ?t3"
    using list_run_step(2) [OF wf_example_catalog s2 find_example(5) la d _ _ fz,
        where prog = "''prog''" and option = "''--output=y''" and listflag = False
          and m_table = ?t2]
    by (simp add: find_example example_keys append_value_def)
  also have "\<dots> = parse_loop example_catalog ''prog'' ?a2 (Suc (Suc (Suc (Suc (Suc (Suc (Suc (Suc (Suc 0)))))))))
        (?a2 ! Suc (Suc (Suc (Suc (Suc (Suc (Suc (Suc 0)))))))) False ?t4"
    by (rule example_long_step) simp_all
  also have "\<dots> = Inr ?t4"
    using parse_loop_end [of example_catalog "''prog''" ?a2 "''--output=z''" False ?t4]
    by simp
  finally have "parse example_catalog ''prog'' ?a2 Map.empty = Inr ?t4"
    by (simp add: parse_from_loop)
  moreover have "?t4 = [''tags'' \<mapsto> [''x'', ''a'', ''b'', ''c''], ''output'' \<mapsto> [''y'', ''z'']]"
    by (auto simp: fun_eq_iff append_value_def)
  ultimately have p2: "parse example_catalog ''prog'' ?a2 Map.empty =
      Inr [''tags'' \<mapsto> [''x'', ''a'', ''b'', ''c''], ''output'' \<mapsto> [''y'', ''z'']]"
    by simp
  from wf_example_catalog la find_example p1 p2 show ?thesis
    by simp
qed

text \<open>
  Claim C4, as amended. In a well-formed catalog, a \<open>required_argument\<close> or
  \<open>optional_argument\<close> option given by its short form, the short form being present, with a
  token after it. When that token matches no descriptor, \<open>parse_short_argument\<close> takes it as
  the value and moves the cursor onto it; the value is appended to the value sequence of the
  option's key and the scan goes on two tokens further. When the token matches a descriptor,
  the value is the empty string, the cursor stays, and the scan goes on at that token. In
  every table that \<open>parse\<close> hands back the key's sequence starts with the old values followed
  by this value, and \<open>get\<close> of the short form returns the first value of the key: this value
  when the key held nothing before.
\<close>

theorem short_option_value:
  assumes wf: "wf_catalog opts"
    and i: "Suc i < length argv"
    and f: "find_option opts (argv ! i) = Some d"
    and a: "argument d = required_argument \<or> argument d = optional_argument"
    and s: "argv ! i = shortopt d" and ne: "shortopt d \<noteq> []"
  shows "((\<forall>e\<in>set opts. \<not> spec_matches e (argv ! Suc i)) \<longrightarrow>
            parse_short_argument opts argv i = Inr (Suc i, argv ! Suc i)
          \<and> parse_argument opts prog m_table argv (Some d) i listflag =
              Inr (Some (Suc i), listflag,
                   append_value m_table (spec_canonical_key d) (argv ! Suc i))
          \<and> parse_loop opts prog argv i option listflag m_table =
              parse_loop opts prog argv (Suc (Suc i)) (argv ! i) False
                (append_value m_table (spec_canonical_key d) (argv ! Suc i))
          \<and> (\<forall>T. parse_loop opts prog argv i option listflag m_table = Inr T \<longrightarrow>
                (\<exists>ys. T (spec_canonical_key d) =
                   Some ((case m_table (spec_canonical_key d) of None \<Rightarrow> [] | Some xs \<Rightarrow> xs)
                           @ argv ! Suc i # ys))
              \<and> get opts T (shortopt d) =
                  Inr (hd ((case m_table (spec_canonical_key d) of None \<Rightarrow> [] | Some xs \<Rightarrow> xs)
                           @ [argv ! Suc i]))))
       \<and> ((\<exists>e\<in>set opts. spec_matches e (argv ! Suc i)) \<longrightarrow>
            parse_short_argument opts argv i = Inr (i, [])
          \<and> parse_argument opts prog m_table argv (Some d) i listflag =
              Inr (Some i, listflag, append_value m_table (spec_canonical_key d) [])
          \<and> parse_loop opts prog argv i option listflag m_table =
              parse_loop opts prog argv (Suc i) (argv ! i) False
                (append_value m_table (spec_canonical_key d) [])
          \<and> (\<forall>T. parse_loop opts prog argv i option listflag m_table = Inr T \<longrightarrow>
                (\<exists>ys. T (spec_canonical_key d) =
                   Some ((case m_table (spec_canonical_key d) of None \<Rightarrow> [] | Some xs \<Rightarrow> xs)
                           @ [] # ys))
              \<and> get opts T (shortopt d) =
                  Inr (hd ((case m_table (spec_canonical_key d) of None \<Rightarrow> [] | Some xs \<Rightarrow> xs)
                           @ [[]]))))"
    (is "(?X \<longrightarrow> ?A) \<and> (?Y \<longrightarrow> ?B)")
proof -
  let ?k = "spec_canonical_key d"
  let ?old = "case m_table ?k of None \<Rightarrow> [] | Some xs \<Rightarrow> xs"
  have core:
    "parse_argument opts prog m_table argv (Some d) i listflag =
       Inr (Some c, listflag, append_value m_table ?k w)"
    "parse_loop opts prog argv i option listflag m_table =
       parse_loop opts prog argv (Suc c) (argv ! i) False (append_value m_table ?k w)"
    "\<forall>T. parse_loop opts prog argv i option listflag m_table = Inr T \<longrightarrow>
        (\<exists>ys. T ?k = Some (?old @ w # ys))
      \<and> get opts T (shortopt d) = Inr (hd (?old @ [w]))"
    if ps: "parse_short_argument opts argv i = Inr (c, w)" for c w
  proof -
    note key = short_value_step(1) [OF wf i f a s ne ps]
    show "parse_argument opts prog m_table argv (Some d) i listflag =
       Inr (Some c, listflag, append_value m_table ?k w)"
      by (rule short_value_step(2) [OF wf i f a s ne ps])
    show eq: "parse_loop opts prog argv i option listflag m_table =
       parse_loop opts prog argv (Suc c) (argv ! i) False (append_value m_table ?k w)"
      by (rule short_value_step(3) [OF wf i f a s ne ps])
    show "\<forall>T. parse_loop opts prog argv i option listflag m_table = Inr T \<longrightarrow>
        (\<exists>ys. T ?k = Some (?old @ w # ys))
      \<and> get opts T (shortopt d) = Inr (hd (?old @ [w]))"
      using final_table_after_append [OF eq _ key] by blast
  qed
  have A: ?A if ?X
  proof -
    from that have "\<not> is_option opts (argv ! Suc i)"
      by (simp add: is_option_iff_find find_option_None_spec)
    with i have ps: "parse_short_argument opts argv i = Inr (Suc i, argv ! Suc i)"
      by (simp add: parse_short_argument_def argv_at_in)
    from ps core [OF ps] show ?thesis by blast
  qed
  have B: ?B if ?Y
  proof -
    from that have "is_option opts (argv ! Suc i)"
      using find_option_None_spec [of opts "argv ! Suc i"] by (simp add: is_option_iff_find)
    with i have ps: "parse_short_argument opts argv i = Inr (i, [])"
      by (simp add: parse_short_argument_def argv_at_in)
    from ps core [OF ps] show ?thesis by blast
  qed
  from A B show ?thesis by blast
qed

theorem short_option_value_witness:
  "wf_catalog example_catalog \<and>
   Suc 1 < length [''prog'', ''-o'', ''x''] \<and>
   find_option example_catalog ([''prog'', ''-o'', ''x''] ! 1) = Some output_option \<and>
   argument output_option = required_argument \<and>
   [''prog'', ''-o'', ''x''] ! 1 = shortopt output_option \<and>
   shortopt output_option \<noteq> [] \<and>
   find_option example_catalog ([''prog'', ''-o'', ''x''] ! Suc 1) = None \<and>
   parse_short_argument example_catalog [''prog'', ''-o'', ''x''] 1 = Inr (2, ''x'') \<and>
   parse example_catalog ''prog'' [''prog'', ''-o'', ''x''] Map.empty =
     Inr (append_value Map.empty ''output'' ''x'') \<and>
   get example_catalog (append_value Map.empty ''output'' ''x'') ''-o'' = Inr ''x'' \<and>
   find_option example_catalog ([''prog'', ''-o'', ''-v''] ! Suc 1) = Some verbose_option \<and>
   parse_short_argument example_catalog [''prog'', ''-o'', ''-v''] 1 = Inr (1, []) \<and>
   parse example_catalog ''prog'' [''prog'', ''-o'', ''-v''] Map.empty =
     Inr (append_value Map.empty ''output'' []) \<and>
   get example_catalog (append_value Map.empty ''output'' []) ''-o'' = Inr []"
proof -
  let ?a1 = "[''prog'', ''-o'', ''x'']" and ?a2 = "[''prog'', ''-o'', ''-v'']"
  let ?T1 = "append_value Map.empty ''output'' ''x''"
  let ?T2 = "append_value Map.empty ''output'' []"
  have l1: "Suc 1 < length ?a1" and l2: "Suc 1 < length ?a2" by simp_all
  have f1: "find_option example_catalog (?a1 ! 1) = Some output_option"
    and f2: "find_option example_catalog (?a2 ! 1) = Some output_option"
    by (simp_all add: find_example)
  have a: "argument output_option = required_argument \<or> argument output_option = optional_argument"
    and s1: "?a1 ! 1 = shortopt output_option" and s2: "?a2 ! 1 = shortopt output_option"
    and ne: "shortopt output_option \<noteq> []"
    by (simp_all add: example_fields)
  have n1: "\<forall>e\<in>set example_catalog. \<not> spec_matches e (?a1 ! Suc 1)"
    using find_example(12) by (simp add: find_option_None_spec)
  have fv: "find_option example_catalog (?a2 ! Suc 1) = Some verbose_option"
    by (simp add: find_example)
  then have n2: "\<exists>e\<in>set example_catalog. spec_matches e (?a2 ! Suc 1)"
    using find_option_None_spec [of example_catalog "?a2 ! Suc 1"] by simp
  note t1 = short_option_value [OF wf_example_catalog l1 f1 a s1 ne,
      where prog = "''prog''" and option = "''-o''" and listflag = False
        and m_table = Map.empty, THEN conjunct1, rule_format, OF n1 [rule_format]]
  note t2 = short_option_value [OF wf_example_catalog l2 f2 a s2 ne,
      where prog = "''prog''" and option = "''-o''" and listflag = False
        and m_table = Map.empty, THEN conjunct2, rule_format, OF n2]
  from t1 have ps1: "parse_short_argument example_catalog ?a1 1 = Inr (2, ''x'')"
    by (simp add: eval_nat_numeral)
  from t1 have "parse_loop example_catalog ''prog'' ?a1 1 ''-o'' False Map.empty =
      parse_loop example_catalog ''prog'' ?a1 (length ?a1) ''-o'' False ?T1"
    by (simp add: example_keys)
  then have q1: "parse_loop example_catalog ''prog'' ?a1 1 ''-o'' False Map.empty = Inr ?T1"
    unfolding parse_loop_end .
  then have p1: "parse example_catalog ''prog'' ?a1 Map.empty = Inr ?T1"
    by (simp add: parse_from_loop)
  from t1 have "\<forall>T. parse_loop example_catalog ''prog'' ?a1 1 ''-o'' False Map.empty = Inr T
      \<longrightarrow> get example_catalog T ''-o'' = Inr ''x''"
    by (simp add: example_keys example_fields)
  with q1 have g1: "get example_catalog ?T1 ''-o'' = Inr ''x''"
    by blast
  from t2 have ps2: "parse_short_argument example_catalog ?a2 1 = Inr (1, [])"
    by simp
  from t2 have "parse_loop example_catalog ''prog'' ?a2 1 ''-o'' False Map.empty =
      parse_loop example_catalog ''prog'' ?a2 (Suc 1) (?a2 ! 1) False ?T2"
    by (simp add: example_keys)
  also have "\<dots> = parse_loop example_catalog ''prog'' ?a2 (Suc (Suc 1)) (?a2 ! Suc 1) False ?T2"
    by (rule no_argument_leaves_table [OF _ fv]) (simp_all add: example_fields)
  also have "\<dots> = Inr ?T2"
    using parse_loop_end [of example_catalog "''prog''" ?a2 "''-v''" False ?T2]
    by simp
  finally have q2: "parse_loop example_catalog ''prog'' ?a2 1 ''-o'' False Map.empty = Inr ?T2" .
  then have p2: "parse example_catalog ''prog'' ?a2 Map.empty = Inr ?T2"
    by (simp add: parse_from_loop)
  from t2 have "\<forall>T. parse_loop example_catalog ''prog'' ?a2 1 ''-o'' False Map.empty = Inr T
      \<longrightarrow> get example_catalog T ''-o'' = Inr []"
    by (simp add: example_keys example_fields)
  with q2 have g2: "get example_catalog ?T2 ''-o'' = Inr []"
    by blast
  from wf_example_catalog f1 ps1 p1 g1 fv ps2 p2 g2 show ?thesis
    by (simp add: find_example example_fields)
qed

text \<open>
  The claim as it was stated fails in two ways. For an option given twice, \<open>get\<close> returns the
  value of the first occurrence, not the token consumed at the second. And the empty token
  equals the absent short form of an option that has a long form only: the token after it is
  consumed, but the empty spelling has no key, the value is dropped and \<open>get\<close> returns the
  empty string.
\<close>

theorem short_option_value_counterexample:
  "find_option example_catalog ''-o'' = Some output_option \<and>
   argument output_option = required_argument \<and>
   shortopt output_option = ''-o'' \<and>
   find_option example_catalog ''b'' = None \<and>
   parse example_catalog ''prog'' [''prog'', ''-o'', ''a'', ''-o'', ''b''] Map.empty =
     Inr [''output'' \<mapsto> [''a'', ''b'']] \<and>
   get example_catalog [''output'' \<mapsto> [''a'', ''b'']] ''-o'' = Inr ''a'' \<and>
   get example_catalog [''output'' \<mapsto> [''a'', ''b'']] ''-o'' \<noteq> Inr ''b'' \<and>
   wf_catalog long_only_catalog \<and>
   find_option long_only_catalog [] = Some file_option \<and>
   argument file_option = required_argument \<and>
   shortopt file_option = [] \<and>
   find_option long_only_catalog ''val'' = None \<and>
   parse long_only_catalog ''prog'' [''prog'', [], ''val''] Map.empty = Inr Map.empty \<and>
   get long_only_catalog Map.empty [] = Inr [] \<and>
   get long_only_catalog Map.empty [] \<noteq> Inr ''val''"
proof -
  let ?a1 = "[''prog'', ''-o'', ''a'', ''-o'', ''b'']"
  have "parse_loop example_catalog ''prog'' ?a1 1 ''-o'' False Map.empty =
        parse_loop example_catalog ''prog'' ?a1 (Suc (Suc 1)) (?a1 ! 1) False
          (append_value Map.empty ''output'' (?a1 ! Suc 1))"
    by (rule example_short_step) (simp_all add: find_example)
  also have "\<dots> = parse_loop example_catalog ''prog'' ?a1 (Suc (Suc (Suc (Suc 1))))
          (?a1 ! Suc (Suc 1)) False
          (append_value (append_value Map.empty ''output'' (?a1 ! Suc 1)) ''output''
             (?a1 ! Suc (Suc (Suc 1))))"
    by (rule example_short_step) (simp_all add: find_example)
  also have "\<dots> = Inr (append_value (append_value Map.empty ''output'' (?a1 ! Suc 1)) ''output''
             (?a1 ! Suc (Suc (Suc 1))))"
    using parse_loop_end [of example_catalog "''prog''" ?a1 "''-o''" False
        "append_value (append_value Map.empty ''output'' (?a1 ! Suc 1)) ''output''
             (?a1 ! Suc (Suc (Suc 1)))"]
    by simp
  finally have p1: "parse example_catalog ''prog'' ?a1 Map.empty =
     Inr [''output'' \<mapsto> [''a'', ''b'']]"
    by (simp add: parse_from_loop append_value_def)
  have g1: "get example_catalog [''output'' \<mapsto> [''a'', ''b'']] ''-o'' = Inr ''a''"
    by (simp add: get_def has_def to_key_example)
  let ?a2 = "[''prog'', [], ''val'']"
  have ff: "find_option long_only_catalog [] = Some file_option"
    and fv: "find_option long_only_catalog ''val'' = None"
    by (simp_all add: long_only_catalog_def is_option_data_Some extract_option_takeWhile
        file_option_def)
  have fa: "argument file_option = required_argument" and fs: "shortopt file_option = []"
    by (simp_all add: file_option_def)
  have k: "to_key long_only_catalog [] = Inr []"
    by (simp add: to_key_resolve spec_resolve_def key_result_def spec_matches_def
        spec_strip_value_def long_only_catalog_def file_option_def)
  have "parse_argument long_only_catalog ''prog'' Map.empty ?a2 (Some file_option) 1 False =
      Inr (Some (Suc 1), False, Map.empty)"
    by (simp add: parse_argument_def argv_at_def to_string_def fa
        is_long_option_data_def is_short_option_data_def extract_option_takeWhile
        parse_short_argument_def is_option_iff_find fv set_value_def k)
       (simp add: file_option_def)
  with parse_loop_option [of 1 ?a2 long_only_catalog file_option "''prog''" "[]" False Map.empty]
  have "parse_loop long_only_catalog ''prog'' ?a2 1 [] False Map.empty =
        parse_loop long_only_catalog ''prog'' ?a2 (Suc (Suc 1)) [] False Map.empty"
    by (simp add: ff)
  also have "\<dots> = Inr Map.empty"
    using parse_loop_end [of long_only_catalog "''prog''" ?a2 "[]" False Map.empty]
    by simp
  finally have p2: "parse long_only_catalog ''prog'' ?a2 Map.empty = Inr Map.empty"
    by (simp add: parse_from_loop)
  have g2: "get long_only_catalog Map.empty [] = Inr []"
    by (simp add: get_def has_def k)
  from p1 g1 wf_small_catalogs(1) ff fa fs fv p2 g2 show ?thesis
    by (simp add: find_example example_fields)
qed

text \<open>
  Claim C5, as amended. In a well-formed catalog, a \<open>required_argument\<close> or
  \<open>optional_argument\<close> option with the long form \<open>--opt\<close>. On the token \<open>--opt=value\<close>,
  \<open>parse_long_argument\<close> makes \<open>--opt\<close> the key and the text after the first \<open>=\<close> the value;
  on the token \<open>--opt\<close> the token itself is the key and the value is the empty string. The
  value is appended to the value sequence of the canonical key \<open>opt\<close>, and the scan goes on
  at the next token. In every table that \<open>parse\<close> hands back the sequence of \<open>opt\<close> starts
  with the old values followed by this value, and \<open>get\<close> of \<open>--opt\<close> returns the first value
  of the key: this value when the key held nothing before. \<open>get\<close> of the dashless \<open>opt\<close>
  returns the same when \<open>opt\<close> does not start with a dash.
\<close>

theorem long_option_value:
  assumes wf: "wf_catalog opts"
    and i: "i < length argv"
    and f: "find_option opts (argv ! i) = Some d"
    and a: "argument d = required_argument \<or> argument d = optional_argument"
    and l: "longopt d = ''--'' @ opt"
  shows "(argv ! i = ''--'' @ opt @ ''='' @ v \<longrightarrow>
            parse_long_argument argv i = Inr (i, ''--'' @ opt, v)
          \<and> parse_argument opts prog m_table argv (Some d) i listflag =
              Inr (Some i, listflag, append_value m_table opt v)
          \<and> parse_loop opts prog argv i option listflag m_table =
              parse_loop opts prog argv (Suc i) (argv ! i) False (append_value m_table opt v)
          \<and> (\<forall>T. parse_loop opts prog argv i option listflag m_table = Inr T \<longrightarrow>
                (\<exists>ys. T opt = Some ((case m_table opt of None \<Rightarrow> [] | Some xs \<Rightarrow> xs) @ v # ys))
              \<and> get opts T (''--'' @ opt)
                  = Inr (hd ((case m_table opt of None \<Rightarrow> [] | Some xs \<Rightarrow> xs) @ [v]))
              \<and> (front_char opt \<noteq> CHR ''-'' \<longrightarrow>
                   get opts T opt
                     = Inr (hd ((case m_table opt of None \<Rightarrow> [] | Some xs \<Rightarrow> xs) @ [v])))))
       \<and> (argv ! i = ''--'' @ opt \<longrightarrow>
            parse_long_argument argv i = Inr (i, argv ! i, [])
          \<and> parse_argument opts prog m_table argv (Some d) i listflag =
              Inr (Some i, listflag, append_value m_table opt [])
          \<and> parse_loop opts prog argv i option listflag m_table =
              parse_loop opts prog argv (Suc i) (argv ! i) False (append_value m_table opt [])
          \<and> (\<forall>T. parse_loop opts prog argv i option listflag m_table = Inr T \<longrightarrow>
                (\<exists>ys. T opt = Some ((case m_table opt of None \<Rightarrow> [] | Some xs \<Rightarrow> xs) @ [] # ys))
              \<and> get opts T (''--'' @ opt)
                  = Inr (hd ((case m_table opt of None \<Rightarrow> [] | Some xs \<Rightarrow> xs) @ [[]]))))"
    (is "(?X \<longrightarrow> ?A) \<and> (?Y \<longrightarrow> ?B)")
proof -
  let ?old = "case m_table opt of None \<Rightarrow> [] | Some xs \<Rightarrow> xs"
  from f have mem: "d \<in> set opts" by (simp add: find_option_SomeD)
  with wf l have "wf_long (''--'' @ opt)"
    using wf_catalog_memD [of opts d] by simp
  then have noeq: "CHR ''='' \<notin> set (''--'' @ opt)"
    by (auto simp: wf_long_def)
  have ck: "spec_canonical_key d = opt"
    by (simp add: spec_canonical_key_def l)
  have core:
    "parse_long_argument argv i = Inr (i, ''--'' @ opt, w)"
    "parse_argument opts prog m_table argv (Some d) i listflag =
       Inr (Some i, listflag, append_value m_table opt w)"
    "parse_loop opts prog argv i option listflag m_table =
       parse_loop opts prog argv (Suc i) (argv ! i) False (append_value m_table opt w)"
    "\<forall>T. parse_loop opts prog argv i option listflag m_table = Inr T \<longrightarrow>
        (\<exists>ys. T opt = Some (?old @ w # ys))
      \<and> get opts T (''--'' @ opt) = Inr (hd (?old @ [w]))
      \<and> (front_char opt \<noteq> CHR ''-'' \<longrightarrow> get opts T opt = Inr (hd (?old @ [w])))"
    if ext: "extract_option (argv ! i) = ''--'' @ opt" and val: "extract_value (argv ! i) = w"
    for w
  proof -
    note s = long_value_step(2,3) [OF wf i f a l ext]
    show "parse_long_argument argv i = Inr (i, ''--'' @ opt, w)"
      using long_value_step(1) [OF wf i f a l ext] unfolding val .
    show "parse_argument opts prog m_table argv (Some d) i listflag =
       Inr (Some i, listflag, append_value m_table opt w)"
      using long_value_step(4) [OF wf i f a l ext, where prog = prog and listflag = listflag
        and m_table = m_table] unfolding val .
    show eq: "parse_loop opts prog argv i option listflag m_table =
       parse_loop opts prog argv (Suc i) (argv ! i) False (append_value m_table opt w)"
      using long_value_step(5) [OF wf i f a l ext, where prog = prog and option = option
        and listflag = listflag and m_table = m_table] unfolding val .
    have bare: "to_key opts opt = Inr opt" if "front_char opt \<noteq> CHR ''-''"
      using that wf s(1) by (simp add: to_key_bare wf_key_result ck)
    show "\<forall>T. parse_loop opts prog argv i option listflag m_table = Inr T \<longrightarrow>
        (\<exists>ys. T opt = Some (?old @ w # ys))
      \<and> get opts T (''--'' @ opt) = Inr (hd (?old @ [w]))
      \<and> (front_char opt \<noteq> CHR ''-'' \<longrightarrow> get opts T opt = Inr (hd (?old @ [w])))"
    proof (intro allI impI conjI)
      fix T assume T: "parse_loop opts prog argv i option listflag m_table = Inr T"
      from final_table_after_append [OF eq T s(2)]
      show "\<exists>ys. T opt = Some (?old @ w # ys)"
        and "get opts T (''--'' @ opt) = Inr (hd (?old @ [w]))" by blast+
      assume "front_char opt \<noteq> CHR ''-''"
      from final_table_after_append [OF eq T bare [OF this]]
      show "get opts T opt = Inr (hd (?old @ [w]))" by blast
    qed
  qed
  have A: ?A if t: ?X
  proof -
    from t have t': "argv ! i = (''--'' @ opt) @ CHR ''='' # v" by simp
    have ext: "extract_option (argv ! i) = ''--'' @ opt"
      unfolding t' using noeq by (rule extract_option_append)
    have val: "extract_value (argv ! i) = v"
      unfolding t' using noeq by (rule extract_value_append)
    from core [OF ext val] show ?thesis by blast
  qed
  have B: ?B if t: ?Y
  proof -
    from noeq have ext: "extract_option (argv ! i) = ''--'' @ opt"
      and val: "extract_value (argv ! i) = []"
      by (simp_all add: extract_option_plain extract_value_plain t)
    from core(1) [OF ext val] have "parse_long_argument argv i = Inr (i, argv ! i, [])"
      unfolding t .
    with core(2-4) [OF ext val] show ?thesis by blast
  qed
  from A B show ?thesis by blast
qed

theorem long_option_value_witness:
  "wf_catalog example_catalog \<and>
   (1::nat) < length [''prog'', ''--output=out.txt''] \<and>
   find_option example_catalog ([''prog'', ''--output=out.txt''] ! 1) = Some output_option \<and>
   argument output_option = required_argument \<and>
   longopt output_option = ''--'' @ ''output'' \<and>
   parse_long_argument [''prog'', ''--output=out.txt''] 1 = Inr (1, ''--output'', ''out.txt'') \<and>
   parse example_catalog ''prog'' [''prog'', ''--output=out.txt''] Map.empty =
     Inr (append_value Map.empty ''output'' ''out.txt'') \<and>
   get example_catalog (append_value Map.empty ''output'' ''out.txt'') ''--output'' = Inr ''out.txt'' \<and>
   get example_catalog (append_value Map.empty ''output'' ''out.txt'') ''output'' = Inr ''out.txt'' \<and>
   parse_long_argument [''prog'', ''--output''] 1 = Inr (1, ''--output'', []) \<and>
   parse example_catalog ''prog'' [''prog'', ''--output''] Map.empty =
     Inr (append_value Map.empty ''output'' [])"
proof -
  let ?a1 = "[''prog'', ''--output=out.txt'']" and ?a2 = "[''prog'', ''--output'']"
  let ?T1 = "append_value Map.empty ''output'' ''out.txt''"
  let ?T2 = "append_value Map.empty ''output'' []"
  have l: "(1::nat) < length ?a1" and l': "(1::nat) < length ?a2" by simp_all
  have f: "find_option example_catalog (?a1 ! 1) = Some output_option"
    and f': "find_option example_catalog (?a2 ! 1) = Some output_option"
    by (simp_all add: find_example)
  have a: "argument output_option = required_argument \<or> argument output_option = optional_argument"
    and lo: "longopt output_option = ''--'' @ ''output''"
    by (simp_all add: example_fields)
  have x1: "?a1 ! 1 = ''--'' @ ''output'' @ ''='' @ ''out.txt''"
    and x2: "?a2 ! 1 = ''--'' @ ''output''"
    by simp_all
  note t = long_option_value [OF wf_example_catalog l f a lo,
      where prog = "''prog''" and option = "''--output=out.txt''" and listflag = False
        and m_table = Map.empty and v = "''out.txt''", THEN conjunct1, rule_format, OF x1]
  note t' = long_option_value [OF wf_example_catalog l' f' a lo,
      where prog = "''prog''" and option = "''--output''" and listflag = False
        and m_table = Map.empty and v = "''out.txt''", THEN conjunct2, rule_format, OF x2]
  from t have pl: "parse_long_argument ?a1 1 = Inr (1, ''--output'', ''out.txt'')"
    by simp
  from t have "parse_loop example_catalog ''prog'' ?a1 1 ''--output=out.txt'' False Map.empty =
       parse_loop example_catalog ''prog'' ?a1 (length ?a1) ''--output=out.txt'' False ?T1"
    by simp
  then have q: "parse_loop example_catalog ''prog'' ?a1 1 ''--output=out.txt'' False Map.empty
      = Inr ?T1"
    unfolding parse_loop_end .
  then have p: "parse example_catalog ''prog'' ?a1 Map.empty = Inr ?T1"
    by (simp add: parse_from_loop)
  from t have "\<forall>T. parse_loop example_catalog ''prog'' ?a1 1 ''--output=out.txt'' False Map.empty
      = Inr T \<longrightarrow> get example_catalog T ''--output'' = Inr ''out.txt''
          \<and> get example_catalog T ''output'' = Inr ''out.txt''"
    by (simp add: front_char_def)
  with q have g: "get example_catalog ?T1 ''--output'' = Inr ''out.txt''"
    "get example_catalog ?T1 ''output'' = Inr ''out.txt''"
    by blast+
  from t' have pl': "parse_long_argument ?a2 1 = Inr (1, ''--output'', [])"
    by simp
  from t' have "parse_loop example_catalog ''prog'' ?a2 1 ''--output'' False Map.empty =
       parse_loop example_catalog ''prog'' ?a2 (length ?a2) ''--output'' False ?T2"
    by simp
  then have p': "parse example_catalog ''prog'' ?a2 Map.empty = Inr ?T2"
    unfolding parse_loop_end by (simp add: parse_from_loop)
  from wf_example_catalog f pl p g pl' p' show ?thesis
    by (simp add: example_fields)
qed

text \<open>
  The claim as it was stated fails in two ways. For an option given twice, \<open>get\<close> returns the
  value of the first occurrence. And for the long form \<open>---x\<close> the key is \<open>-x\<close>, a spelling that
  \<open>to_key\<close> looks up as it is, with its own dash, and does not find: \<open>get\<close> of \<open>-x\<close> returns
  the empty string although the value is stored.
\<close>

theorem long_option_value_counterexample:
  "find_option example_catalog ''--output=b'' = Some output_option \<and>
   argument output_option = required_argument \<and>
   longopt output_option = ''--output'' \<and>
   parse example_catalog ''prog'' [''prog'', ''--output=a'', ''--output=b''] Map.empty =
     Inr [''output'' \<mapsto> [''a'', ''b'']] \<and>
   get example_catalog [''output'' \<mapsto> [''a'', ''b'']] ''output'' = Inr ''a'' \<and>
   get example_catalog [''output'' \<mapsto> [''a'', ''b'']] ''output'' \<noteq> Inr ''b'' \<and>
   wf_catalog dash_catalog \<and>
   find_option dash_catalog ''---x=1'' = Some dash_option \<and>
   argument dash_option = required_argument \<and>
   longopt dash_option = ''--'' @ ''-x'' \<and>
   parse dash_catalog ''prog'' [''prog'', ''---x=1''] Map.empty = Inr [''-x'' \<mapsto> [''1'']] \<and>
   get dash_catalog [''-x'' \<mapsto> [''1'']] ''-x'' = Inr [] \<and>
   get dash_catalog [''-x'' \<mapsto> [''1'']] ''-x'' \<noteq> Inr ''1''"
proof -
  let ?a1 = "[''prog'', ''--output=a'', ''--output=b'']"
  have fb: "find_option example_catalog ''--output=b'' = Some output_option"
    using find_example_output_value [of "''b''"] by simp
  have "parse_loop example_catalog ''prog'' ?a1 1 ''--output=a'' False Map.empty =
        parse_loop example_catalog ''prog'' ?a1 (Suc 1) (?a1 ! 1) False
          (append_value Map.empty ''output'' ''a'')"
    by (rule example_long_step) simp_all
  also have "\<dots> = parse_loop example_catalog ''prog'' ?a1 (Suc (Suc 1)) (?a1 ! Suc 1) False
          (append_value (append_value Map.empty ''output'' ''a'') ''output'' ''b'')"
    by (rule example_long_step) simp_all
  also have "\<dots> = Inr (append_value (append_value Map.empty ''output'' ''a'') ''output'' ''b'')"
    using parse_loop_end [of example_catalog "''prog''" ?a1 "''--output=b''" False
        "append_value (append_value Map.empty ''output'' ''a'') ''output'' ''b''"]
    by simp
  finally have p1: "parse example_catalog ''prog'' ?a1 Map.empty =
     Inr [''output'' \<mapsto> [''a'', ''b'']]"
    by (simp add: parse_from_loop append_value_def)
  have g1: "get example_catalog [''output'' \<mapsto> [''a'', ''b'']] ''output'' = Inr ''a''"
    by (simp add: get_def has_def to_key_resolve spec_resolve_def key_result_def
        substr_from_def spec_matches_def spec_strip_value_def example_catalog_def
        verbose_option_def output_option_def tags_option_def help_option_def quiet_option_def)
  let ?a2 = "[''prog'', ''---x=1'']"
  have fd: "find_option dash_catalog (?a2 ! 1) = Some dash_option"
    by (simp add: dash_catalog_def is_option_data_Some extract_option_takeWhile dash_option_def)
  have da: "argument dash_option = required_argument"
    and dl: "longopt dash_option = ''--'' @ ''-x''"
    by (simp_all add: dash_option_def)
  have ext: "extract_option (?a2 ! 1) = ''--'' @ ''-x''"
    by (simp add: extract_option_takeWhile)
  from long_value_step(5) [OF wf_small_catalogs(2) _ fd _ dl ext, where prog = "''prog''"
      and option = "''---x=1''" and listflag = False and m_table = Map.empty]
  have "parse_loop dash_catalog ''prog'' ?a2 1 ''---x=1'' False Map.empty =
        parse_loop dash_catalog ''prog'' ?a2 (length ?a2) ''---x=1'' False
          (append_value Map.empty ''-x'' ''1'')"
    by (simp add: da extract_value_dropWhile)
  then have p2: "parse dash_catalog ''prog'' ?a2 Map.empty = Inr [''-x'' \<mapsto> [''1'']]"
    unfolding parse_loop_end by (simp add: parse_from_loop append_value_def)
  have g2: "get dash_catalog [''-x'' \<mapsto> [''1'']] ''-x'' = Inr []"
    by (simp add: get_def has_def to_key_resolve spec_resolve_def key_result_def
        spec_matches_def spec_strip_value_def dash_catalog_def dash_option_def)
  from fb p1 g1 wf_small_catalogs(2) fd da dl p2 g2 show ?thesis
    by (simp add: example_fields)
qed

text \<open>
  Claim C6. A list option whose token is the last of the argument vector is a hard error:
  whatever the state of the scan when it reaches the token, \<open>parse\<close> ends the program with
  status 1 and a diagnostic on standard error that names the program and the token; no table
  is handed back.
\<close>

theorem list_option_without_values_is_fatal:
  assumes "Suc i = length argv"
    and "find_option opts (argv ! i) = Some d"
    and "argument d = list_argument"
  shows "parse_loop opts prog argv i option listflag m_table =
     Inl (Exit 1 [] (prog @ '': No argument after option '' @ [CHR 0x27] @ argv ! i
                      @ [CHR 0x27] @ '' with list_argument type.'' @ [CHR 0x0A]))"
proof -
  from assms(1) have lt: "i < length argv" by simp
  from assms(1) have nxt: "argv_at argv (Suc i) = Inr None"
    by (simp add: argv_at_def)
  from lt assms(3) nxt
  have "parse_argument opts prog m_table argv (Some d) i False =
     Inl (Exit 1 [] (no_list_argument_msg prog (argv ! i)))"
    by (simp add: parse_argument_def argv_at_in to_string_def)
  with parse_loop_option [OF lt assms(2), of prog option listflag m_table]
  show ?thesis
    by (simp add: no_list_argument_msg_def)
qed

theorem list_option_without_values_is_fatal_witness:
  "Suc 1 = length [''prog'', ''--tags''] \<and>
   find_option example_catalog ([''prog'', ''--tags''] ! 1) = Some tags_option \<and>
   argument tags_option = list_argument \<and>
   parse example_catalog ''prog'' [''prog'', ''--tags''] Map.empty =
     Inl (Exit 1 [] (''prog: No argument after option '' @ [CHR 0x27] @ ''--tags''
                      @ [CHR 0x27] @ '' with list_argument type.'' @ [CHR 0x0A]))"
proof -
  have l: "Suc 1 = length [''prog'', ''--tags'']" by simp
  have f: "find_option example_catalog ([''prog'', ''--tags''] ! 1) = Some tags_option"
    by (simp add: find_example)
  have a: "argument tags_option = list_argument"
    by (simp add: example_fields)
  from list_option_without_values_is_fatal [OF l f a, of "''prog''" "''--tags''" False Map.empty]
  have "parse example_catalog ''prog'' [''prog'', ''--tags''] Map.empty =
     Inl (Exit 1 [] (''prog: No argument after option '' @ [CHR 0x27] @ ''--tags''
                      @ [CHR 0x27] @ '' with list_argument type.'' @ [CHR 0x0A]))"
    by (simp add: parse_from_loop)
  with l f a show ?thesis by simp
qed

text \<open>
  Claim C7. A token matches a descriptor exactly when it equals the descriptor's short form,
  equals its long form, or equals the long form once the text from the first \<open>=\<close> on is
  stripped; the catalog lookup finds a descriptor exactly when one matches; and a token that
  the scan reaches outside list mode and that matches no descriptor ends the program with
  status 1 and the diagnostic \<open>PROGRAM: Invalid option 'token'\<close> on standard error.
\<close>

theorem unmatched_token_is_fatal:
  "(is_option_data (Some d) tok \<longleftrightarrow> spec_matches d tok) \<and>
   (find_option opts tok \<noteq> None \<longleftrightarrow> (\<exists>d\<in>set opts. spec_matches d tok)) \<and>
   (i < length argv \<and> (\<forall>d\<in>set opts. \<not> spec_matches d (argv ! i)) \<longrightarrow>
      parse_loop opts prog argv i option False m_table =
        Inl (Exit 1 [] (prog @ '': Invalid option '' @ [CHR 0x27] @ argv ! i
                          @ [CHR 0x27, CHR 0x0A])))"
proof -
  have e: "parse_loop opts prog argv i option False m_table =
        Inl (Exit 1 [] (prog @ '': Invalid option '' @ [CHR 0x27] @ argv ! i
                          @ [CHR 0x27, CHR 0x0A]))"
    if "i < length argv" and "\<forall>d\<in>set opts. \<not> spec_matches d (argv ! i)"
  proof -
    from that(2) have "find_option opts (argv ! i) = None"
      by (simp add: find_option_None_spec)
    with that(1) show ?thesis
      by (simp add: parse_loop_invalid invalid_option_msg_def)
  qed
  have "find_option opts tok \<noteq> None \<longleftrightarrow> (\<exists>d\<in>set opts. spec_matches d tok)"
    by (simp add: find_option_None_spec)
  with e show ?thesis
    by (simp add: is_option_data_spec)
qed

theorem unmatched_token_is_fatal_witness:
  "is_option_data (Some output_option) ''--output=out.txt'' \<and>
   spec_matches output_option ''--output=out.txt'' \<and>
   find_option example_catalog ''--bogus'' = None \<and>
   (1::nat) < length [''prog'', ''--bogus''] \<and>
   parse example_catalog ''prog'' [''prog'', ''--bogus''] Map.empty =
     Inl (Exit 1 [] (''prog: Invalid option '' @ [CHR 0x27] @ ''--bogus'' @ [CHR 0x27, CHR 0x0A]))"
proof -
  have m: "spec_matches output_option ''--output=out.txt''"
    by (simp add: example_fields spec_matches_def spec_strip_value_def)
  have n: "\<forall>d\<in>set example_catalog. \<not> spec_matches d ([''prog'', ''--bogus''] ! 1)"
    using find_example(8) by (simp add: find_option_None_spec)
  note t = unmatched_token_is_fatal [of output_option "''--output=out.txt''"
      example_catalog 1 "[''prog'', ''--bogus'']" "''prog''" "''--bogus''" Map.empty]
  from t m have a: "is_option_data (Some output_option) ''--output=out.txt''"
    by blast
  from t n have "parse_loop example_catalog ''prog'' [''prog'', ''--bogus''] 1 ''--bogus'' False
       Map.empty =
     Inl (Exit 1 [] (''prog: Invalid option '' @ [CHR 0x27] @ ''--bogus'' @ [CHR 0x27, CHR 0x0A]))"
    by simp
  then have "parse example_catalog ''prog'' [''prog'', ''--bogus''] Map.empty =
     Inl (Exit 1 [] (''prog: Invalid option '' @ [CHR 0x27] @ ''--bogus'' @ [CHR 0x27, CHR 0x0A]))"
    by (simp add: parse_from_loop)
  with m a find_example(8) show ?thesis by simp
qed

text \<open>
  Claim C8. When the scan resolves a token to a descriptor of arity \<open>no_argument\<close> whose long
  form is \<open>--help\<close> or whose short form is \<open>-?\<close>, the program ends with status 0 and the
  usage text on standard output: the header and one paragraph per descriptor, in catalog
  order. Nothing is recorded, since no table is handed back. \<open>parse_argument\<close> ends with
  status 0 in this case only, so the shortcut fires for no other arity. A paragraph holds the
  short form, the long form, the placeholder \<open>=<name>\<close> when the descriptor names its
  argument, and the description (for fields without a null character and a name that fits
  the buffer of \<open>kArgumentNameLength\<close> characters).
\<close>

theorem help_shortcut:
  assumes "i < length argv"
  shows "(find_option opts (argv ! i) = Some d \<and> argument d = no_argument
            \<and> (longopt d = ''--help'' \<or> shortopt d = ''-?'') \<longrightarrow>
          parse_loop opts prog argv i option listflag m_table =
            Inl (Exit 0 (''Usage: '' @ prog @ '' [option]...'' @ [CHR 0x0A, CHR 0x0A]
                          @ ''Options:'' @ concat (map usage_entry opts)) []))
       \<and> (parse_argument opts prog m_table argv (Some d) i listflag = Inl (Exit 0 out err)
            \<longleftrightarrow> argument d = no_argument \<and> (longopt d = ''--help'' \<or> shortopt d = ''-?'')
                \<and> out = usage opts prog \<and> err = [])
       \<and> (CHR 0x00 \<notin> set (shortopt e) \<and> CHR 0x00 \<notin> set (longopt e)
            \<and> CHR 0x00 \<notin> set (name e) \<and> CHR 0x00 \<notin> set (desc e)
            \<and> length (name e) \<le> 28 \<longrightarrow>
          usage_entry e =
            [CHR 0x0A] @ ''    '' @ shortopt e @ '', '' @ longopt e
              @ (if name e = [] then [] else ''=<'' @ name e @ ''>'')
              @ [CHR 0x0A] @ ''        '' @ desc e @ [CHR 0x0A])"
proof -
  have a: "parse_loop opts prog argv i option listflag m_table =
            Inl (Exit 0 (''Usage: '' @ prog @ '' [option]...'' @ [CHR 0x0A, CHR 0x0A]
                          @ ''Options:'' @ concat (map usage_entry opts)) [])"
    if f: "find_option opts (argv ! i) = Some d" and n: "argument d = no_argument"
      and h: "longopt d = ''--help'' \<or> shortopt d = ''-?''"
  proof -
    from assms n h
    have "parse_argument opts prog m_table argv (Some d) i False =
            Inl (Exit 0 (usage opts prog) [])"
      by (auto simp: parse_argument_def argv_at_in to_string_def parse_help_option_def)
    with parse_loop_option [OF assms f, of prog option listflag m_table]
    show ?thesis
      by (simp add: usage_def)
  qed
  have b: "parse_argument opts prog m_table argv (Some d) i listflag = Inl (Exit 0 out err)
            \<longleftrightarrow> argument d = no_argument \<and> (longopt d = ''--help'' \<or> shortopt d = ''-?'')
                \<and> out = usage opts prog \<and> err = []"
    using assms
    by (auto simp: parse_argument_def argv_at_in to_string_def parse_help_option_def
          parse_long_argument_def parse_short_argument_def argv_at_def
        split: argument_t.splits sum.splits option.splits prod.splits if_splits
        dest: set_value_failure)
  from a b usage_entry_plain [of e] show ?thesis by blast
qed

theorem help_shortcut_witness:
  "(1::nat) < length [''prog'', ''-?''] \<and>
   find_option example_catalog ([''prog'', ''-?''] ! 1) = Some help_option \<and>
   argument help_option = no_argument \<and>
   shortopt help_option = ''-?'' \<and>
   parse example_catalog ''prog'' [''prog'', ''-?''] Map.empty =
     Inl (Exit 0
       (''Usage: prog [option]...'' @ [CHR 0x0A, CHR 0x0A] @ ''Options:''
         @ [CHR 0x0A] @ ''    -v, --verbose'' @ [CHR 0x0A] @ ''        Print more.'' @ [CHR 0x0A]
         @ [CHR 0x0A] @ ''    -o, --output=<file>'' @ [CHR 0x0A] @ ''        Write to a file.'' @ [CHR 0x0A]
         @ [CHR 0x0A] @ ''    , --tags=<tag>'' @ [CHR 0x0A] @ ''        Tags.'' @ [CHR 0x0A]
         @ [CHR 0x0A] @ ''    -?, --help'' @ [CHR 0x0A] @ ''        Print this text.'' @ [CHR 0x0A]
         @ [CHR 0x0A] @ ''    -q, =<level>'' @ [CHR 0x0A] @ ''        Print less.'' @ [CHR 0x0A])
       [])"
proof -
  have l: "(1::nat) < length [''prog'', ''-?'']" by simp
  have f: "find_option example_catalog ([''prog'', ''-?''] ! 1) = Some help_option"
    by (simp add: find_example)
  have a: "argument help_option = no_argument" and s: "shortopt help_option = ''-?''"
    by (simp_all add: example_fields)
  have u: "concat (map usage_entry example_catalog) =
     [CHR 0x0A] @ ''    -v, --verbose'' @ [CHR 0x0A] @ ''        Print more.'' @ [CHR 0x0A]
         @ [CHR 0x0A] @ ''    -o, --output=<file>'' @ [CHR 0x0A] @ ''        Write to a file.'' @ [CHR 0x0A]
         @ [CHR 0x0A] @ ''    , --tags=<tag>'' @ [CHR 0x0A] @ ''        Tags.'' @ [CHR 0x0A]
         @ [CHR 0x0A] @ ''    -?, --help'' @ [CHR 0x0A] @ ''        Print this text.'' @ [CHR 0x0A]
         @ [CHR 0x0A] @ ''    -q, =<level>'' @ [CHR 0x0A] @ ''        Print less.'' @ [CHR 0x0A]"
    by (simp add: example_catalog_def usage_entry_def c_str_def kArgumentNameLength_def
        verbose_option_def output_option_def tags_option_def help_option_def quiet_option_def)
  from help_shortcut [OF l, of example_catalog help_option "''prog''" "''-?''" False Map.empty] f a s
  have "parse_loop example_catalog ''prog'' [''prog'', ''-?''] 1 ''-?'' False Map.empty =
     Inl (Exit 0 (''Usage: '' @ ''prog'' @ '' [option]...'' @ [CHR 0x0A, CHR 0x0A]
                          @ ''Options:'' @ concat (map usage_entry example_catalog)) [])"
    by simp
  then have "parse example_catalog ''prog'' [''prog'', ''-?''] Map.empty =
     Inl (Exit 0 (''Usage: '' @ ''prog'' @ '' [option]...'' @ [CHR 0x0A, CHR 0x0A]
                          @ ''Options:'' @ concat (map usage_entry example_catalog)) [])"
    by (simp add: parse_from_loop)
  with l f a s show ?thesis
    unfolding u by simp
qed

text \<open>
  Claim C9. For every option spelling \<open>K\<close> and value \<open>V\<close>: when \<open>K\<close> resolves to no
  descriptor of the catalog (as it is, or with the dashes put in front when it has none),
  \<open>set\<close> returns \<open>-1\<close> and the table is the one it was given; when \<open>K\<close> resolves to a
  descriptor with a canonical key, \<open>set\<close> returns \<open>0\<close> and the table differs only in that
  key's value sequence, which is the old one (empty when the key was absent) followed by \<open>V\<close>.
\<close>

theorem set_value_canonicalizes:
  "(spec_resolve opts K = None \<longrightarrow> set_value opts m_table K V = Inr (- 1, m_table)) \<and>
   (\<forall>d. spec_resolve opts K = Some d \<and> spec_canonical_key d \<noteq> [] \<longrightarrow>
        set_value opts m_table K V =
          Inr (0, m_table(spec_canonical_key d \<mapsto>
                 (case m_table (spec_canonical_key d) of None \<Rightarrow> [] | Some vs \<Rightarrow> vs) @ [V])))"
proof (intro conjI allI impI)
  assume "spec_resolve opts K = None"
  then have "to_key opts K = Inr []"
    by (simp add: to_key_resolve key_result_def)
  then show "set_value opts m_table K V = Inr (- 1, m_table)"
    by (simp add: set_value_def)
next
  fix d
  assume "spec_resolve opts K = Some d \<and> spec_canonical_key d \<noteq> []"
  then have "to_key opts K = Inr (spec_canonical_key d)" and "spec_canonical_key d \<noteq> []"
    by (simp_all add: to_key_resolve key_result_canonical)
  then show "set_value opts m_table K V =
          Inr (0, m_table(spec_canonical_key d \<mapsto>
                 (case m_table (spec_canonical_key d) of None \<Rightarrow> [] | Some vs \<Rightarrow> vs) @ [V]))"
    by (simp add: set_value_def)
qed

theorem set_value_canonicalizes_witness:
  "spec_resolve example_catalog ''bogus'' = None \<and>
   set_value example_catalog Map.empty ''bogus'' ''x'' = Inr (- 1, Map.empty) \<and>
   spec_resolve example_catalog ''-o'' = Some output_option \<and>
   spec_canonical_key output_option = ''output'' \<and>
   set_value example_catalog Map.empty ''-o'' ''a'' = Inr (0, [''output'' \<mapsto> [''a'']]) \<and>
   set_value example_catalog [''output'' \<mapsto> [''a'']] ''-o'' ''b''
     = Inr (0, [''output'' \<mapsto> [''a'', ''b'']])"
proof -
  have r1: "spec_resolve example_catalog ''bogus'' = None"
    by (simp add: spec_resolve_def example_catalog_def spec_matches_def spec_strip_value_def
        verbose_option_def output_option_def tags_option_def help_option_def quiet_option_def)
  have r2: "spec_resolve example_catalog ''-o'' = Some output_option"
    by (simp add: spec_resolve_dash front_char_def find_example)
  note k = example_keys(2)
  from set_value_canonicalizes [of example_catalog "''bogus''" Map.empty "''x''"] r1
  have a: "set_value example_catalog Map.empty ''bogus'' ''x'' = Inr (- 1, Map.empty)"
    by simp
  from set_value_canonicalizes [of example_catalog "''-o''" Map.empty "''a''"] r2 k
  have b: "set_value example_catalog Map.empty ''-o'' ''a'' = Inr (0, [''output'' \<mapsto> [''a'']])"
    by simp
  from set_value_canonicalizes [of example_catalog "''-o''" "[''output'' \<mapsto> [''a'']]" "''b''"] r2 k
  have c: "set_value example_catalog [''output'' \<mapsto> [''a'']] ''-o'' ''b''
     = Inr (0, [''output'' \<mapsto> [''a'', ''b'']])"
    by simp
  from r1 r2 k a b c show ?thesis by simp
qed



end
